theory Spec2Isabelle
  imports Complex_Main
begin

section \<open>The animation engine of pattern-illustrator (animation.js)\<close>

text \<open>
  A shallow embedding of \<^verbatim>\<open>window.Anim\<close>: the animation clock
  (\<^verbatim>\<open>start\<close>, \<^verbatim>\<open>drawFrame\<close>), the stroke matcher, the ghost
  synthesizer, arc-length resampling and the stroke and drawing tweeners.

  Numbers. The coordinates, lengths, costs and interpolation parameters of the
  geometry are JavaScript numbers that the callers keep finite; they are modelled as
  \<^typ>\<open>real\<close>, so rounding and overflow of IEEE doubles are not part of the model and
  an equality proved here holds in the program up to rounding. Where the program itself
  can produce or compare against a non-finite number (\<^verbatim>\<open>Number(d)\<close>,
  the division by the duration, \<^verbatim>\<open>bestC = Infinity\<close>) the type
  \<open>jsnum\<close> below is used. Signed zero is not modelled.

  Errors. Reading a property of \<^verbatim>\<open>undefined\<close> (an array read out of range
  followed by \<^verbatim>\<open>.x\<close>, \<^verbatim>\<open>.strokes\<close>) throws a TypeError, and so does the call of
  an easing that the lookup took from \<^verbatim>\<open>Object.prototype\<close>; functions in which this
  can happen return \<open>error + 'a\<close>.
\<close>

subsection \<open>JavaScript numbers and values\<close>

datatype jsnum = NaN | Fin real | PInf | NInf

datatype error = TypeError

text \<open>The primitive values \<^verbatim>\<open>start\<close> can be called with (strings and objects,
  which \<^verbatim>\<open>Number\<close> parses, are left out).\<close>

datatype jsval = JUndefined | JNull | JBool bool | JNum jsnum

text \<open>\<^verbatim>\<open>Number(v)\<close>\<close>

fun Number_js :: "jsval \<Rightarrow> jsnum" where
  "Number_js JUndefined = NaN"
| "Number_js JNull = Fin 0"
| "Number_js (JBool b) = Fin (if b then 1 else 0)"
| "Number_js (JNum n) = n"

text \<open>Truthiness of a number: every number but \<^verbatim>\<open>0\<close> and \<^verbatim>\<open>NaN\<close>.\<close>

fun truthy :: "jsnum \<Rightarrow> bool" where
  "truthy NaN = False"
| "truthy (Fin r) = (r \<noteq> 0)"
| "truthy PInf = True"
| "truthy NInf = True"

text \<open>\<^verbatim>\<open>a < b\<close> and \<^verbatim>\<open>a >= b\<close>: every comparison with NaN is false.\<close>

fun jslt :: "jsnum \<Rightarrow> jsnum \<Rightarrow> bool" where
  "jslt NaN _ = False"
| "jslt _ NaN = False"
| "jslt (Fin a) (Fin b) = (a < b)"
| "jslt (Fin a) PInf = True"
| "jslt (Fin a) NInf = False"
| "jslt NInf NInf = False"
| "jslt NInf _ = True"
| "jslt PInf _ = False"

fun jsge :: "jsnum \<Rightarrow> jsnum \<Rightarrow> bool" where
  "jsge NaN _ = False"
| "jsge _ NaN = False"
| "jsge (Fin a) (Fin b) = (a \<ge> b)"
| "jsge (Fin a) PInf = False"
| "jsge (Fin a) NInf = True"
| "jsge PInf _ = True"
| "jsge NInf NInf = True"
| "jsge NInf _ = False"

text \<open>\<^verbatim>\<open>e / d\<close> for a finite \<^verbatim>\<open>e\<close>.\<close>

fun jsdiv :: "real \<Rightarrow> jsnum \<Rightarrow> jsnum" where
  "jsdiv e NaN = NaN"
| "jsdiv e PInf = Fin 0"
| "jsdiv e NInf = Fin 0"
| "jsdiv e (Fin d) =
     (if d \<noteq> 0 then Fin (e / d)
      else if e > 0 then PInf else if e < 0 then NInf else NaN)"

subsection \<open>The p5.js helpers the file calls\<close>

text \<open>\<^verbatim>\<open>dist(x1, y1, x2, y2)\<close>, \<^verbatim>\<open>lerp(start, stop, amt)\<close> and
  \<^verbatim>\<open>constrain(n, low, high)\<close> of p5.js.\<close>

definition dist_p5 :: "real \<Rightarrow> real \<Rightarrow> real \<Rightarrow> real \<Rightarrow> real" where
  "dist_p5 x1 y1 x2 y2 = sqrt ((x2 - x1)\<^sup>2 + (y2 - y1)\<^sup>2)"

definition lerp :: "real \<Rightarrow> real \<Rightarrow> real \<Rightarrow> real" where
  "lerp start stop amt = amt * (stop - start) + start"

definition constrain :: "real \<Rightarrow> real \<Rightarrow> real \<Rightarrow> real" where
  "constrain n low high = max (min n high) low"

subsection \<open>Data model\<close>

text \<open>A point \<^verbatim>\<open>{x, y}\<close>; a colour \<^verbatim>\<open>{h, s, b, a}\<close> whose alpha may be
  missing; a stored stroke \<^verbatim>\<open>{colHSB, thickness, opacity, eraser, points}\<close> whose
  thickness and opacity may be missing (\<open>None\<close> is \<^verbatim>\<open>undefined\<close>); a stored
  drawing \<^verbatim>\<open>{strokes}\<close>.\<close>

record point =
  px :: real
  py :: real

record colour =
  col_h :: real
  col_s :: real
  col_b :: real
  col_a :: "real option"

record stroke =
  colHSB :: colour
  thickness :: "real option"
  opacity :: "real option"
  eraser :: bool
  points :: "point list"

record drawing =
  strokes :: "stroke list"

text \<open>The clock: the three mutable fields of the \<^verbatim>\<open>Anim\<close> object.\<close>

record clock =
  running :: bool
  startMs :: real
  durationMs :: jsnum

subsection \<open>Geometry\<close>

text \<open>\<^verbatim>\<open>centroidOf\<close>: the sums are accumulated left to right.\<close>

definition centroidOf :: "point list \<Rightarrow> point" where
  "centroidOf ps =
     (if length ps = 0 then \<lparr>px = 0, py = 0\<rparr>
      else \<lparr>px = foldl (\<lambda>sx p. sx + px p) 0 ps / real (length ps),
            py = foldl (\<lambda>sy p. sy + py p) 0 ps / real (length ps)\<rparr>)"

text \<open>\<^verbatim>\<open>lengthOf\<close>: the loop over \<^verbatim>\<open>i = 1 .. length - 1\<close>, carrying \<open>L\<close>
  and the previous point.\<close>

fun lengthFrom :: "real \<Rightarrow> point \<Rightarrow> point list \<Rightarrow> real" where
  "lengthFrom L p [] = L"
| "lengthFrom L p (q # qs) = lengthFrom (L + dist_p5 (px p) (py p) (px q) (py q)) q qs"

definition lengthOf :: "point list \<Rightarrow> real" where
  "lengthOf ps = (case ps of [] \<Rightarrow> 0 | p # qs \<Rightarrow> lengthFrom 0 p qs)"

subsection \<open>Resampling\<close>

text \<open>The cumulative table \<^verbatim>\<open>L\<close>: \<^verbatim>\<open>L = [0]\<close>, then
  \<^verbatim>\<open>L.push(L[i-1] + dist(points[i-1], points[i]))\<close>.\<close>

fun arcFrom :: "real \<Rightarrow> point \<Rightarrow> point list \<Rightarrow> real list" where
  "arcFrom acc p [] = []"
| "arcFrom acc p (q # qs) =
     (let d = acc + dist_p5 (px p) (py p) (px q) (py q) in d # arcFrom d q qs)"

definition arcTable :: "point list \<Rightarrow> real list" where
  "arcTable ps = (case ps of [] \<Rightarrow> [0] | p # qs \<Rightarrow> 0 # arcFrom 0 p qs)"

text \<open>\<^verbatim>\<open>while (j < L.length && L[j] < t) j++\<close>\<close>

function scanTable :: "real list \<Rightarrow> real \<Rightarrow> nat \<Rightarrow> nat" where
  "scanTable L t j = (if j < length L \<and> L ! j < t then scanTable L t (Suc j) else j)"
  by pat_completeness auto
termination
  by (relation "measure (\<lambda>(L, t, j). length L - j)") auto

declare scanTable.simps [simp del]

text \<open>One pass of the sampling loop, for the index \<open>k\<close> of \<open>N\<close> samples.
  \<^verbatim>\<open>points[i]\<close> out of range is \<^verbatim>\<open>undefined\<close> and \<^verbatim>\<open>p1.x\<close> throws.\<close>

definition samplePoint :: "point list \<Rightarrow> real list \<Rightarrow> real \<Rightarrow> nat \<Rightarrow> nat \<Rightarrow> error + point" where
  "samplePoint ps L total_len N k =
     (let t = (real k / (real N - 1)) * total_len;
          j = scanTable L t 1;
          i = max 1 j
      in if i < length ps then
           (let t0 = L ! (i - 1); t1 = L ! i;
                seg = (if t1 - t0 \<noteq> 0 then t1 - t0 else 1 / 10 ^ 9);
                u = (t - t0) / seg;
                p0 = ps ! (i - 1); p1 = ps ! i
            in Inr \<lparr>px = lerp (px p0) (px p1) u, py = lerp (py p0) (py p1) u\<rparr>)
         else Inl TypeError)"

text \<open>A loop that pushes one result per index and is left by the first throw.\<close>

fun mapE :: "('a \<Rightarrow> error + 'b) \<Rightarrow> 'a list \<Rightarrow> error + 'b list" where
  "mapE f [] = Inr []"
| "mapE f (x # xs) =
     (case f x of
        Inl e \<Rightarrow> Inl e
      | Inr y \<Rightarrow> (case mapE f xs of Inl e \<Rightarrow> Inl e | Inr ys \<Rightarrow> Inr (y # ys)))"

text \<open>\<^verbatim>\<open>resamplePointsLocal(points, N)\<close>; \<open>N\<close> is any finite number.\<close>

definition resamplePointsLocal :: "point list \<Rightarrow> real \<Rightarrow> error + point list" where
  "resamplePointsLocal ps N =
     (if length ps < 2 then Inr ps
      else
        (let N' = nat (max 2 \<lfloor>N\<rfloor>);
             L = arcTable ps;
             total_len = L ! (length L - 1)
         in if total_len = 0 then Inr (replicate N' (ps ! 0))
            else mapE (samplePoint ps L total_len N') [0..<N']))"

subsection \<open>Stroke matching\<close>

text \<open>\<^verbatim>\<open>strokeMatchCost(a, b)\<close>\<close>

definition strokeMatchCost :: "stroke \<Rightarrow> stroke \<Rightarrow> real" where
  "strokeMatchCost a b =
     (let ca = centroidOf (points a); cb = centroidOf (points b);
          d = dist_p5 (px ca) (py ca) (px cb) (py cb);
          la = max 1 (lengthOf (points a)); lb = max 1 (lengthOf (points b));
          lenTerm = \<bar>la - lb\<bar> * (1 / 10)
      in d + lenTerm)"

text \<open>The body of the inner loop of \<^verbatim>\<open>matchStrokes\<close> at index \<open>j\<close>, on the pair
  \<^verbatim>\<open>(bestJ, bestC)\<close>; \<open>None\<close> is \<^verbatim>\<open>bestJ = -1\<close>.\<close>

definition innerStep ::
  "stroke \<Rightarrow> stroke list \<Rightarrow> nat set \<Rightarrow> nat \<Rightarrow> nat option \<times> jsnum \<Rightarrow> nat option \<times> jsnum" where
  "innerStep ai B usedB j st =
     (if j \<in> usedB then st
      else (let c = Fin (strokeMatchCost ai (B ! j))
            in if jslt c (snd st) then (Some j, c) else st))"

text \<open>The inner loop: \<^verbatim>\<open>bestJ = -1, bestC = Infinity\<close>, then \<open>j = 0 .. B.length - 1\<close>.\<close>

definition bestMatch :: "stroke \<Rightarrow> stroke list \<Rightarrow> nat set \<Rightarrow> nat option \<times> jsnum" where
  "bestMatch ai B usedB = fold (innerStep ai B usedB) [0..<length B] (None, PInf)"

text \<open>The body of the outer loop at index \<open>i\<close>, on \<^verbatim>\<open>(pairs, usedB)\<close>.\<close>

definition outerStep ::
  "stroke list \<Rightarrow> stroke list \<Rightarrow> nat \<Rightarrow> (nat \<times> nat) list \<times> nat set \<Rightarrow> (nat \<times> nat) list \<times> nat set" where
  "outerStep A B i st =
     (case fst (bestMatch (A ! i) B (snd st)) of
        None \<Rightarrow> st
      | Some bestJ \<Rightarrow> (fst st @ [(i, bestJ)], insert bestJ (snd st)))"

text \<open>The state of the outer loop after the indices \<open>0 .. k - 1\<close>.\<close>

definition matchLoop :: "stroke list \<Rightarrow> stroke list \<Rightarrow> nat \<Rightarrow> (nat \<times> nat) list \<times> nat set" where
  "matchLoop A B k = fold (outerStep A B) [0..<k] ([], {})"

record matchResult =
  pairs :: "(nat \<times> nat) list"
  unmatchedA :: "nat list"
  unmatchedB :: "nat list"

text \<open>\<^verbatim>\<open>matchStrokes(A, B)\<close>\<close>

definition matchStrokes :: "stroke list \<Rightarrow> stroke list \<Rightarrow> matchResult" where
  "matchStrokes A B =
     (let ps = fst (matchLoop A B (length A))
      in \<lparr>pairs = ps,
          unmatchedA = filter (\<lambda>i. \<not> list_ex (\<lambda>p. fst p = i) ps) [0..<length A],
          unmatchedB = filter (\<lambda>j. \<not> list_ex (\<lambda>p. snd p = j) ps) [0..<length B]\<rparr>)"

subsection \<open>Ghosts and the stroke tweener\<close>

text \<open>\<^verbatim>\<open>ghostFromStrokeLike(s)\<close>\<close>

definition ghostFromStrokeLike :: "stroke \<Rightarrow> stroke" where
  "ghostFromStrokeLike s =
     (let c = centroidOf (points s);
          N = 20;
          pts = replicate N \<lparr>px = px c, py = py c\<rparr>
      in \<lparr>colHSB = colHSB s, thickness = Some (1 / 1000), opacity = Some 0,
          eraser = False, points = pts\<rparr>)"

text \<open>\<^verbatim>\<open>v || d\<close> and \<^verbatim>\<open>v ?? d\<close> on a number that may be missing.\<close>

definition orElse :: "real option \<Rightarrow> real \<Rightarrow> real" where
  "orElse v d = (case v of None \<Rightarrow> d | Some r \<Rightarrow> if r \<noteq> 0 then r else d)"

definition nullish :: "real option \<Rightarrow> real \<Rightarrow> real" where
  "nullish v d = (case v of None \<Rightarrow> d | Some r \<Rightarrow> r)"

text \<open>The point pushed at the index \<open>j\<close> by the loop of \<^verbatim>\<open>tweenTwoStrokes\<close>:
  \<^verbatim>\<open>{ x: lerp(pa[j].x, pb[j].x, t), y: lerp(pa[j].y, pb[j].y, t) }\<close>.\<close>

definition tweenPt :: "point list \<Rightarrow> point list \<Rightarrow> real \<Rightarrow> nat \<Rightarrow> point" where
  "tweenPt pa pb t j =
     \<lparr>px = lerp (px (pa ! j)) (px (pb ! j)) t, py = lerp (py (pa ! j)) (py (pb ! j)) t\<rparr>"

text \<open>The loop \<^verbatim>\<open>for (let j = 0; j < N; j++) pts.push(...)\<close> of
  \<^verbatim>\<open>tweenTwoStrokes\<close>, from the index \<open>j\<close> with the points pushed so far;
  \<^verbatim>\<open>pa[j].x\<close> or \<^verbatim>\<open>pb[j].x\<close> out of range throws.\<close>

function tweenPoints ::
  "point list \<Rightarrow> point list \<Rightarrow> real \<Rightarrow> real \<Rightarrow> nat \<Rightarrow> point list \<Rightarrow> error + point list" where
  "tweenPoints pa pb t N j pts =
     (if real j < N then
        (if j < length pa \<and> j < length pb then
           tweenPoints pa pb t N (Suc j) (pts @ [tweenPt pa pb t j])
         else Inl TypeError)
      else Inr pts)"
  by pat_completeness auto
termination
  by (relation "measure (\<lambda>(pa, pb, t, N, j, pts). nat \<lceil>N\<rceil> - j)") (auto, linarith)

declare tweenPoints.simps [simp del]

text \<open>\<^verbatim>\<open>tweenTwoStrokes(a, b, t, N)\<close>; every caller passes \<open>N\<close>.\<close>

definition tweenTwoStrokes :: "stroke \<Rightarrow> stroke \<Rightarrow> real \<Rightarrow> real \<Rightarrow> error + stroke" where
  "tweenTwoStrokes a b t N =
     (case resamplePointsLocal (points a) N of
        Inl e \<Rightarrow> Inl e
      | Inr pa \<Rightarrow>
     (case resamplePointsLocal (points b) N of
        Inl e \<Rightarrow> Inl e
      | Inr pb \<Rightarrow>
     (case tweenPoints pa pb t N 0 [] of
        Inl e \<Rightarrow> Inl e
      | Inr pts \<Rightarrow>
          Inr \<lparr>colHSB =
                 \<lparr>col_h = lerp (col_h (colHSB a)) (col_h (colHSB b)) t,
                  col_s = lerp (col_s (colHSB a)) (col_s (colHSB b)) t,
                  col_b = lerp (col_b (colHSB a)) (col_b (colHSB b)) t,
                  col_a = Some (lerp (nullish (opacity a) (nullish (col_a (colHSB a)) 100))
                                     (nullish (opacity b) (nullish (col_a (colHSB b)) 100)) t)\<rparr>,
               thickness = Some (lerp (orElse (thickness a) 4) (orElse (thickness b) 4) t),
               opacity = Some (lerp (nullish (opacity a) 100) (nullish (opacity b) 100) t),
               eraser = False,
               points = pts\<rparr>)))"

subsection \<open>The drawing tweener\<close>

text \<open>\<^verbatim>\<open>tweenDrawingsMulti(A, B, t)\<close>: the three loops push in turn, and the first throw
  leaves the function.\<close>

definition tweenDrawingsMulti :: "stroke list \<Rightarrow> stroke list \<Rightarrow> real \<Rightarrow> error + stroke list" where
  "tweenDrawingsMulti A B t =
     (let AA = filter (\<lambda>s. \<not> eraser s) A;
          BB = filter (\<lambda>s. \<not> eraser s) B;
          m = matchStrokes AA BB
      in case mapE (\<lambda>(ia, ib). tweenTwoStrokes (AA ! ia) (BB ! ib) t 60) (pairs m) of
           Inl e \<Rightarrow> Inl e
         | Inr out1 \<Rightarrow>
        (case mapE (\<lambda>ia. tweenTwoStrokes (AA ! ia) (ghostFromStrokeLike (AA ! ia)) t 40)
                (unmatchedA m) of
           Inl e \<Rightarrow> Inl e
         | Inr out2 \<Rightarrow>
        (case mapE (\<lambda>ib. tweenTwoStrokes (ghostFromStrokeLike (BB ! ib)) (BB ! ib) t 40)
                (unmatchedB m) of
           Inl e \<Rightarrow> Inl e
         | Inr out3 \<Rightarrow> Inr (out1 @ out2 @ out3))))"

subsection \<open>The animation clock\<close>

definition Linear :: "real \<Rightarrow> real" where
  "Linear t = t"

definition EaseInOutCubic :: "real \<Rightarrow> real" where
  "EaseInOutCubic t = (if t < 1 / 2 then 4 * t * t * t else 1 - (- 2 * t + 2) ^ 3 / 2)"

definition EaseInOutQuad :: "real \<Rightarrow> real" where
  "EaseInOutQuad t = (if t < 1 / 2 then 2 * t * t else 1 - (- 2 * t + 2) ^ 2 / 2)"

text \<open>What \<^verbatim>\<open>Anim.Easings[name]\<close> can find: one of the three functions of the table, or a
  member that the table inherits from \<^verbatim>\<open>Object.prototype\<close>.\<close>

datatype easing = EaseFun "real \<Rightarrow> real" | ProtoMember string

text \<open>The property names of \<^verbatim>\<open>Object.prototype\<close>.\<close>

definition protoNames :: "string list" where
  "protoNames =
     [''constructor'', ''__defineGetter__'', ''__defineSetter__'', ''hasOwnProperty'',
      ''__lookupGetter__'', ''__lookupSetter__'', ''isPrototypeOf'', ''propertyIsEnumerable'',
      ''toString'', ''valueOf'', ''__proto__'', ''toLocaleString'']"

text \<open>\<^verbatim>\<open>getEase(name)\<close>, that is \<^verbatim>\<open>Anim.Easings[name] || Anim.Easings.EaseInOutCubic\<close>:
  the lookup finds an own property of the table first, then walks the prototype chain
  (every inherited member is truthy), and only a name found nowhere gives the cubic.\<close>

definition getEase :: "string \<Rightarrow> easing" where
  "getEase name =
     (if name = ''Linear'' then EaseFun Linear
      else if name = ''EaseInOutCubic'' then EaseFun EaseInOutCubic
      else if name = ''EaseInOutQuad'' then EaseFun EaseInOutQuad
      else if name \<in> set protoNames then ProtoMember name
      else EaseFun EaseInOutCubic)"

text \<open>\<^verbatim>\<open>constrain(ease(x), 0, 1)\<close> for a number \<open>x\<close>; \<open>None\<close> is NaN. Of the inherited
  members, called as a plain function (\<^verbatim>\<open>this\<close> is \<^verbatim>\<open>undefined\<close>):
  \<^verbatim>\<open>constructor\<close> is \<^verbatim>\<open>Object\<close>, which wraps \<open>x\<close> in a Number object that
  \<^verbatim>\<open>constrain\<close> converts back to \<open>x\<close>; \<^verbatim>\<open>isPrototypeOf\<close> returns \<^verbatim>\<open>false\<close> for a
  number, which \<^verbatim>\<open>constrain\<close> converts to 0; \<^verbatim>\<open>toString\<close> returns the string
  \<^verbatim>\<open>[object Undefined]\<close>, which \<^verbatim>\<open>constrain\<close> converts to NaN;
  \<^verbatim>\<open>__proto__\<close> is an object and not callable, and the other members convert
  \<^verbatim>\<open>this\<close> to an object: both throw a TypeError.\<close>

definition easedLocal :: "easing \<Rightarrow> real \<Rightarrow> error + real option" where
  "easedLocal ease x =
     (case ease of
        EaseFun f \<Rightarrow> Inr (Some (constrain (f x) 0 1))
      | ProtoMember m \<Rightarrow>
          (if m = ''constructor'' then Inr (Some (constrain x 0 1))
           else if m = ''isPrototypeOf'' then Inr (Some (constrain 0 0 1))
           else if m = ''toString'' then Inr None
           else Inl TypeError))"

text \<open>\<^verbatim>\<open>start(durationMs)\<close>; \<open>now\<close> is what \<^verbatim>\<open>millis()\<close> returns.\<close>

definition start :: "clock \<Rightarrow> jsval \<Rightarrow> real \<Rightarrow> clock" where
  "start c d now =
     c\<lparr>durationMs := (if truthy (Number_js d) then Number_js d else Fin 10000),
       running := True,
       startMs := now\<rparr>"

text \<open>\<^verbatim>\<open>tGlobal = (millis() - Anim.startMs) / Anim.durationMs\<close>\<close>

definition tGlobalOf :: "clock \<Rightarrow> real \<Rightarrow> jsnum" where
  "tGlobalOf c now = jsdiv (now - startMs c) (durationMs c)"

text \<open>\<^verbatim>\<open>segT = tGlobal * segments\<close> with \<^verbatim>\<open>segments = n - 1\<close>\<close>

definition segTOf :: "nat \<Rightarrow> real \<Rightarrow> real" where
  "segTOf n tGlobal = tGlobal * real_of_int (int n - 1)"

text \<open>The index \<^verbatim>\<open>i\<close> and the parameter \<^verbatim>\<open>local\<close> of \<^verbatim>\<open>drawFrame\<close>.\<close>

definition frameSegment :: "nat \<Rightarrow> easing \<Rightarrow> real \<Rightarrow> int \<times> (error + real option)" where
  "frameSegment n ease tGlobal =
     (let segments = int n - 1;
          segT = segTOf n tGlobal;
          i = min (segments - 1) \<lfloor>segT\<rfloor>;
          local = easedLocal ease (constrain (segT - real_of_int i) 0 1)
      in (i, local))"

text \<open>What \<^verbatim>\<open>drawFrame\<close> hands to \<^verbatim>\<open>drawDrawing\<close>: nothing (it is not called), a list
  of strokes, or \<^verbatim>\<open>tweenDrawingsMulti(A, B, NaN)\<close>, whose numbers all are NaN and
  outside the real numbers of this model.\<close>

datatype rendered = NotCalled | Strokes "stroke list" | TweenAtNaN "stroke list" "stroke list"

text \<open>\<^verbatim>\<open>drawFrame(storedDrawings, easeName, drawDrawing)\<close> at the time \<open>now\<close>. The result
  is the clock afterwards and what is handed to \<^verbatim>\<open>drawDrawing\<close>. A \<^verbatim>\<open>tGlobal\<close> that
  is NaN or \<^verbatim>\<open>-Infinity\<close> makes \<^verbatim>\<open>i\<close> NaN or \<^verbatim>\<open>-Infinity\<close>, a negative one makes
  \<^verbatim>\<open>i\<close> negative: \<^verbatim>\<open>storedDrawings[i]\<close> is then \<^verbatim>\<open>undefined\<close> and
  \<^verbatim>\<open>.strokes\<close> throws. The call of the easing comes before these reads. With
  \<^verbatim>\<open>local\<close> NaN the tween makes the same array reads as with any other parameter
  (lemma \<open>tweenDrawingsMulti_throw_indep\<close> below), so it throws exactly when the tween
  at 0 does.\<close>

definition drawFrame ::
  "clock \<Rightarrow> real \<Rightarrow> drawing list \<Rightarrow> string \<Rightarrow> error + (clock \<times> rendered)" where
  "drawFrame c now storedDrawings easeName =
     (let n = length storedDrawings
      in if n < 2 then Inr (c, NotCalled)
         else
           (let tGlobal = tGlobalOf c now
            in if jsge tGlobal (Fin 1) then
                 Inr (c\<lparr>running := False\<rparr>, Strokes (strokes (storedDrawings ! (n - 1))))
               else
                 (case tGlobal of
                    Fin tg \<Rightarrow>
                      (let ease = getEase easeName;
                           (i, local) = frameSegment n ease tg
                       in case local of
                            Inl e \<Rightarrow> Inl e
                          | Inr loc \<Rightarrow>
                              if i < 0 then Inl TypeError
                              else
                                (let A = strokes (storedDrawings ! nat i);
                                     B = strokes (storedDrawings ! (nat i + 1))
                                 in case loc of
                                      Some l \<Rightarrow>
                                        (case tweenDrawingsMulti A B l of
                                           Inl e \<Rightarrow> Inl e
                                         | Inr tween \<Rightarrow> Inr (c, Strokes tween))
                                    | None \<Rightarrow>
                                        (case tweenDrawingsMulti A B 0 of
                                           Inl e \<Rightarrow> Inl e
                                         | Inr tween \<Rightarrow> Inr (c, TweenAtNaN A B))))
                  | _ \<Rightarrow> Inl TypeError)))"

subsection \<open>Auxiliary definitions\<close>

text \<open>The invariant of the inner loop of \<^verbatim>\<open>matchStrokes\<close>: \<^verbatim>\<open>bestC\<close> is still
  \<^verbatim>\<open>Infinity\<close> exactly as long as \<^verbatim>\<open>bestJ\<close> is \<^verbatim>\<open>-1\<close>, and a finite cost
  afterwards.\<close>

definition bestOk :: "nat option \<times> jsnum \<Rightarrow> bool" where
  "bestOk st = (case fst st of None \<Rightarrow> snd st = PInf | Some j \<Rightarrow> (\<exists>r. snd st = Fin r))"

text \<open>Sample strokes: a horizontal segment from \<open>(x0, 0)\<close> to \<open>(x1, 0)\<close> and a stroke of a
  single point.\<close>

definition lineStroke :: "real \<Rightarrow> real \<Rightarrow> stroke" where
  "lineStroke x0 x1 =
     \<lparr>colHSB = \<lparr>col_h = 200, col_s = 50, col_b = 80, col_a = Some 100\<rparr>,
      thickness = Some 4, opacity = Some 100, eraser = False,
      points = [\<lparr>px = x0, py = 0\<rparr>, \<lparr>px = x1, py = 0\<rparr>]\<rparr>"

definition dotStroke :: stroke where
  "dotStroke =
     \<lparr>colHSB = \<lparr>col_h = 200, col_s = 50, col_b = 80, col_a = Some 100\<rparr>,
      thickness = Some 4, opacity = Some 100, eraser = False,
      points = [\<lparr>px = 0, py = 0\<rparr>]\<rparr>"

section \<open>Auxiliary lemmas\<close>

subsection \<open>Interpolation\<close>


lemma lerp_1: "lerp a b 1 = b"
  by (simp add: lerp_def)

lemma dist_p5_nonneg: "0 \<le> dist_p5 a b c d"
  by (simp add: dist_p5_def)

lemma dist_p5_same: "dist_p5 a b a b = 0"
  by (simp add: dist_p5_def)

subsection \<open>The cumulative table and the scan\<close>

lemma length_arcFrom: "length (arcFrom acc p qs) = length qs"
  by (induction qs arbitrary: acc p) (simp_all add: Let_def)

lemma arcFrom_ge: "x \<in> set (arcFrom acc p qs) \<Longrightarrow> acc \<le> x"
proof (induction qs arbitrary: acc p)
  case Nil
  then show ?case by simp
next
  case (Cons q qs)
  let ?d = "acc + dist_p5 (px p) (py p) (px q) (py q)"
  have le: "acc \<le> ?d" using dist_p5_nonneg [of "px p" "py p" "px q" "py q"] by simp
  from Cons.prems have "x = ?d \<or> x \<in> set (arcFrom ?d q qs)" by (simp add: Let_def)
  then show ?case
  proof
    assume "x = ?d" with le show ?thesis by simp
  next
    assume "x \<in> set (arcFrom ?d q qs)"
    then have "?d \<le> x" by (rule Cons.IH)
    with le show ?thesis by simp
  qed
qed

lemma length_arcTable: "ps \<noteq> [] \<Longrightarrow> length (arcTable ps) = length ps"
  by (cases ps) (simp_all add: arcTable_def length_arcFrom)

lemma arcTable_nonneg: "x \<in> set (arcTable ps) \<Longrightarrow> 0 \<le> x"
  by (cases ps) (auto simp: arcTable_def dest: arcFrom_ge)

lemma arcFrom_const:
  "(\<And>q. q \<in> set qs \<Longrightarrow> q = p) \<Longrightarrow> arcFrom acc p qs = replicate (length qs) acc"
proof (induction qs arbitrary: acc)
  case Nil
  show ?case by simp
next
  case (Cons q qs)
  from Cons.prems have q: "q = p" by simp
  from Cons.prems have "arcFrom acc p qs = replicate (length qs) acc" by (intro Cons.IH) simp
  with q show ?case by (simp add: Let_def dist_p5_same)
qed

lemma arcTable_replicate: "arcTable (replicate n c) = replicate (max 1 n) 0"
proof (cases n)
  case 0
  then show ?thesis by (simp add: arcTable_def)
next
  case (Suc m)
  have "arcFrom 0 c (replicate m c) = replicate (length (replicate m c)) 0"
    by (rule arcFrom_const) simp
  with Suc show ?thesis by (simp add: arcTable_def)
qed

text \<open>The scan stops at or before any index whose entry is not below \<open>t\<close>.\<close>

lemma scanTable_bound:
  "j \<le> m \<Longrightarrow> m < length L \<Longrightarrow> \<not> L ! m < t \<Longrightarrow> scanTable L t j \<le> m"
proof (induction L t j rule: scanTable.induct)
  case (1 L t j)
  show ?case
  proof (cases "j < length L \<and> L ! j < t")
    case True
    with "1.prems" have "j \<noteq> m" by auto
    with "1.prems" have "Suc j \<le> m" by simp
    with True "1.IH" "1.prems" have "scanTable L t (Suc j) \<le> m" by blast
    with True show ?thesis by (subst scanTable.simps) simp
  next
    case False
    then have "scanTable L t j = j" by (subst scanTable.simps) auto
    with "1.prems" show ?thesis by simp
  qed
qed

subsection \<open>Resampling never reads out of range\<close>

lemma samplePoint_Inr:
  assumes ps: "2 \<le> length ps" and N: "2 \<le> N" and k: "k < N"
  shows "\<exists>p. samplePoint ps (arcTable ps) (arcTable ps ! (length (arcTable ps) - 1)) N k = Inr p"
proof -
  let ?L = "arcTable ps"
  let ?tot = "?L ! (length ?L - 1)"
  let ?t = "(real k / (real N - 1)) * ?tot"
  from ps have len: "length ?L = length ps" by (intro length_arcTable) auto
  with ps have "?tot \<in> set ?L" by simp
  then have tot0: "0 \<le> ?tot" by (rule arcTable_nonneg)
  from N k have frac1: "real k / (real N - 1) \<le> 1" by simp
  from N have frac0: "0 \<le> real k / (real N - 1)" by simp
  from tot0 frac0 frac1 have "?t \<le> ?tot" by (rule mult_left_le_one_le)
  then have "\<not> ?L ! (length ps - 1) < ?t" using len by simp
  with ps len have "scanTable ?L ?t 1 \<le> length ps - 1"
    by (intro scanTable_bound) simp_all
  with ps have "max 1 (scanTable ?L ?t 1) < length ps" by simp
  then show ?thesis by (simp add: samplePoint_def Let_def)
qed

lemma mapE_all_Inr:
  "(\<And>x. x \<in> set xs \<Longrightarrow> \<exists>y. f x = Inr y) \<Longrightarrow>
   \<exists>ys. mapE f xs = Inr ys \<and> length ys = length xs"
proof (induction xs)
  case Nil
  then show ?case by simp
next
  case (Cons x xs)
  from Cons.prems obtain y where y: "f x = Inr y" by auto
  from Cons obtain ys where "mapE f xs = Inr ys" "length ys = length xs" by auto
  with y show ?case by simp
qed

lemma resample_total:
  "\<exists>out. resamplePointsLocal ps N = Inr out \<and>
     length out = (if length ps < 2 then length ps else nat (max 2 \<lfloor>N\<rfloor>))"
proof (cases "length ps < 2")
  case True
  then show ?thesis by (simp add: resamplePointsLocal_def)
next
  case False
  let ?N = "nat (max 2 \<lfloor>N\<rfloor>)"
  let ?L = "arcTable ps"
  let ?tot = "?L ! (length ?L - 1)"
  have N2: "2 \<le> ?N" by simp
  show ?thesis
  proof (cases "?tot = 0")
    case True
    with False show ?thesis by (simp add: resamplePointsLocal_def Let_def)
  next
    case nz: False
    have "\<exists>ys. mapE (samplePoint ps ?L ?tot ?N) [0..<?N] = Inr ys \<and> length ys = length [0..<?N]"
    proof (rule mapE_all_Inr)
      fix k assume "k \<in> set [0..<?N]"
      then have "k < ?N" by simp
      with False N2 show "\<exists>y. samplePoint ps ?L ?tot ?N k = Inr y"
        by (intro samplePoint_Inr) simp_all
    qed
    with False nz show ?thesis by (simp add: resamplePointsLocal_def Let_def)
  qed
qed

lemma resample_replicate:
  "2 \<le> n \<Longrightarrow> resamplePointsLocal (replicate n c) N = Inr (replicate (nat (max 2 \<lfloor>N\<rfloor>)) c)"
  by (simp add: resamplePointsLocal_def arcTable_replicate Let_def)

lemma ghost_points: "length (points (ghostFromStrokeLike s)) = 20"
  by (simp add: ghostFromStrokeLike_def Let_def)

lemma resample_ghost:
  "resamplePointsLocal (points (ghostFromStrokeLike a)) N =
     Inr (replicate (nat (max 2 \<lfloor>N\<rfloor>)) (centroidOf (points a)))"
  by (simp add: ghostFromStrokeLike_def Let_def resample_replicate)

subsection \<open>The loop of the stroke tweener\<close>

lemma less_ceiling_nat: "(real j < N) = (j < nat \<lceil>N\<rceil>)"
  by linarith

lemma tweenPoints_Inr:
  "nat \<lceil>N\<rceil> \<le> length pa \<Longrightarrow> nat \<lceil>N\<rceil> \<le> length pb \<Longrightarrow>
   tweenPoints pa pb t N j pts = Inr (pts @ map (tweenPt pa pb t) [j..<nat \<lceil>N\<rceil>])"
proof (induction pa pb t N j pts rule: tweenPoints.induct)
  case (1 pa pb t N j pts)
  show ?case
  proof (cases "real j < N")
    case True
    then have jn: "j < nat \<lceil>N\<rceil>" by (simp add: less_ceiling_nat)
    with "1.prems" have inr: "j < length pa \<and> j < length pb" by linarith
    with True "1.IH" "1.prems"
    have "tweenPoints pa pb t N (Suc j) (pts @ [tweenPt pa pb t j]) =
            Inr ((pts @ [tweenPt pa pb t j]) @ map (tweenPt pa pb t) [Suc j..<nat \<lceil>N\<rceil>])"
      by simp
    with True inr jn show ?thesis
      by (subst tweenPoints.simps) (simp add: upt_conv_Cons)
  next
    case False
    then have "\<not> j < nat \<lceil>N\<rceil>" by (simp add: less_ceiling_nat)
    with False show ?thesis by (subst tweenPoints.simps) simp
  qed
qed

lemma tweenPoints_Inl:
  "j \<le> length pa \<Longrightarrow> j \<le> length pb \<Longrightarrow>
   length pa < nat \<lceil>N\<rceil> \<or> length pb < nat \<lceil>N\<rceil> \<Longrightarrow>
   tweenPoints pa pb t N j pts = Inl TypeError"
proof (induction pa pb t N j pts rule: tweenPoints.induct)
  case (1 pa pb t N j pts)
  from "1.prems" have "j < nat \<lceil>N\<rceil>" by auto
  then have lt: "real j < N" by (simp add: less_ceiling_nat)
  show ?case
  proof (cases "j < length pa \<and> j < length pb")
    case True
    with lt "1.IH" "1.prems"
    have "tweenPoints pa pb t N (Suc j) (pts @ [tweenPt pa pb t j]) = Inl TypeError"
      by simp
    with True lt show ?thesis by (subst tweenPoints.simps) simp
  next
    case False
    with lt show ?thesis by (subst tweenPoints.simps) auto
  qed
qed


lemma map_tweenPt_1: "n \<le> length pb \<Longrightarrow> map (tweenPt pa pb 1) [0..<n] = take n pb"
  by (simp add: list_eq_iff_nth_eq tweenPt_def lerp_1)

text \<open>The stroke that \<^verbatim>\<open>tweenTwoStrokes\<close> returns when the resampled lists are long
  enough for the loop.\<close>

lemma tween_shape:
  assumes "resamplePointsLocal (points a) N = Inr pa"
    and "resamplePointsLocal (points b) N = Inr pb"
    and "nat \<lceil>N\<rceil> \<le> length pa" and "nat \<lceil>N\<rceil> \<le> length pb"
  shows "tweenTwoStrokes a b t N =
     Inr \<lparr>colHSB =
            \<lparr>col_h = lerp (col_h (colHSB a)) (col_h (colHSB b)) t,
             col_s = lerp (col_s (colHSB a)) (col_s (colHSB b)) t,
             col_b = lerp (col_b (colHSB a)) (col_b (colHSB b)) t,
             col_a = Some (lerp (nullish (opacity a) (nullish (col_a (colHSB a)) 100))
                                (nullish (opacity b) (nullish (col_a (colHSB b)) 100)) t)\<rparr>,
          thickness = Some (lerp (orElse (thickness a) 4) (orElse (thickness b) 4) t),
          opacity = Some (lerp (nullish (opacity a) 100) (nullish (opacity b) 100) t),
          eraser = False,
          points = map (tweenPt pa pb t) [0..<nat \<lceil>N\<rceil>]\<rparr>"
  using assms by (simp add: tweenTwoStrokes_def tweenPoints_Inr)

lemma ceiling_le_resample:
  "(N::real) \<le> 2 \<or> N \<in> \<int> \<Longrightarrow> nat \<lceil>N\<rceil> \<le> nat (max 2 \<lfloor>N\<rfloor>)"
proof (erule disjE)
  assume "N \<le> 2"
  then have "\<lceil>N\<rceil> \<le> 2" by (simp add: ceiling_le_iff)
  then show ?thesis by simp
next
  assume "N \<in> \<int>"
  then have "\<lceil>N\<rceil> = \<lfloor>N\<rfloor>" by (auto simp: Ints_def)
  then show ?thesis by simp
qed

lemma tweenTwoStrokes_total:
  assumes a: "2 \<le> length (points a)" and b: "2 \<le> length (points b)"
    and N: "N \<le> 2 \<or> N \<in> \<int>"
  shows "\<exists>s. tweenTwoStrokes a b t N = Inr s \<and> length (points s) = nat \<lceil>N\<rceil> \<and> eraser s = False"
proof -
  from resample_total [of "points a" N] a obtain pa
    where pa: "resamplePointsLocal (points a) N = Inr pa" "length pa = nat (max 2 \<lfloor>N\<rfloor>)"
    by auto
  from resample_total [of "points b" N] b obtain pb
    where pb: "resamplePointsLocal (points b) N = Inr pb" "length pb = nat (max 2 \<lfloor>N\<rfloor>)"
    by auto
  from N have le: "nat \<lceil>N\<rceil> \<le> nat (max 2 \<lfloor>N\<rfloor>)" by (rule ceiling_le_resample)
  from pa pb le have "tweenTwoStrokes a b t N =
     Inr \<lparr>colHSB =
            \<lparr>col_h = lerp (col_h (colHSB a)) (col_h (colHSB b)) t,
             col_s = lerp (col_s (colHSB a)) (col_s (colHSB b)) t,
             col_b = lerp (col_b (colHSB a)) (col_b (colHSB b)) t,
             col_a = Some (lerp (nullish (opacity a) (nullish (col_a (colHSB a)) 100))
                                (nullish (opacity b) (nullish (col_a (colHSB b)) 100)) t)\<rparr>,
          thickness = Some (lerp (orElse (thickness a) 4) (orElse (thickness b) 4) t),
          opacity = Some (lerp (nullish (opacity a) 100) (nullish (opacity b) 100) t),
          eraser = False,
          points = map (tweenPt pa pb t) [0..<nat \<lceil>N\<rceil>]\<rparr>"
    by (intro tween_shape) simp_all
  then show ?thesis by simp
qed

subsection \<open>The inner loop of the matcher\<close>

lemma innerStep_bestOk: "bestOk st \<Longrightarrow> bestOk (innerStep ai B used j st)"
  by (auto simp: bestOk_def innerStep_def Let_def split: option.splits)

lemma innerStep_None:
  "bestOk st \<Longrightarrow> (fst (innerStep ai B used j st) = None) = (fst st = None \<and> j \<in> used)"
  by (auto simp: bestOk_def innerStep_def Let_def split: option.splits)

lemma innerStep_Some:
  "fst (innerStep ai B used j st) = Some m \<Longrightarrow> fst st = Some m \<or> (m = j \<and> j \<notin> used)"
  by (auto simp: innerStep_def Let_def split: if_splits)

lemma fold_inner_bestOk: "bestOk st \<Longrightarrow> bestOk (fold (innerStep ai B used) js st)"
  by (induction js arbitrary: st) (simp_all add: innerStep_bestOk)

lemma fold_inner_None:
  "bestOk st \<Longrightarrow>
   (fst (fold (innerStep ai B used) js st) = None) = (fst st = None \<and> set js \<subseteq> used)"
proof (induction js arbitrary: st)
  case Nil
  then show ?case by simp
next
  case (Cons j js)
  from Cons.prems have "bestOk (innerStep ai B used j st)" by (rule innerStep_bestOk)
  then have "(fst (fold (innerStep ai B used) js (innerStep ai B used j st)) = None) =
             (fst (innerStep ai B used j st) = None \<and> set js \<subseteq> used)"
    by (rule Cons.IH)
  with Cons.prems show ?case by (auto simp: innerStep_None)
qed

lemma fold_inner_Some:
  "fst (fold (innerStep ai B used) js st) = Some m \<Longrightarrow>
   fst st = Some m \<or> (m \<in> set js \<and> m \<notin> used)"
proof (induction js arbitrary: st)
  case Nil
  then show ?case by simp
next
  case (Cons j js)
  from Cons.prems have "fst (fold (innerStep ai B used) js (innerStep ai B used j st)) = Some m"
    by simp
  then have "fst (innerStep ai B used j st) = Some m \<or> (m \<in> set js \<and> m \<notin> used)"
    by (rule Cons.IH)
  then show ?case by (auto dest: innerStep_Some)
qed

text \<open>No candidate is found exactly when every index of \<open>B\<close> is used; a candidate found is
  an unused index of \<open>B\<close>.\<close>

lemma bestMatch_None: "(fst (bestMatch ai B used) = None) = ({0..<length B} \<subseteq> used)"
  unfolding bestMatch_def by (subst fold_inner_None) (simp_all add: bestOk_def)

lemma bestMatch_Some: "fst (bestMatch ai B used) = Some m \<Longrightarrow> m < length B \<and> m \<notin> used"
  unfolding bestMatch_def by (drule fold_inner_Some) simp

subsection \<open>The outer loop of the matcher\<close>

lemma matchLoop_0: "matchLoop A B 0 = ([], {})"
  by (simp add: matchLoop_def)

lemma matchLoop_Suc: "matchLoop A B (Suc k) = outerStep A B k (matchLoop A B k)"
  by (simp add: matchLoop_def)

lemma matchLoop_used: "snd (matchLoop A B k) = snd ` set (fst (matchLoop A B k))"
  by (induction k) (auto simp: matchLoop_0 matchLoop_Suc outerStep_def split: option.splits)

lemma matchLoop_used_sub: "snd (matchLoop A B k) \<subseteq> {0..<length B}"
  by (induction k)
    (auto simp: matchLoop_0 matchLoop_Suc outerStep_def split: option.splits dest: bestMatch_Some)

lemma matchLoop_snd_sub: "snd ` set (fst (matchLoop A B k)) \<subseteq> {0..<length B}"
  using matchLoop_used_sub [of A B k] by (simp add: matchLoop_used)

lemma matchLoop_fst_sub: "fst ` set (fst (matchLoop A B k)) \<subseteq> {0..<k}"
proof (induction k)
  case 0
  show ?case by (simp add: matchLoop_0)
next
  case (Suc k)
  then have "fst ` set (fst (matchLoop A B k)) \<subseteq> {0..<Suc k}" by auto
  then show ?case by (auto simp: matchLoop_Suc outerStep_def split: option.splits)
qed

lemma matchLoop_distinct_fst: "distinct (map fst (fst (matchLoop A B k)))"
proof (induction k)
  case 0
  show ?case by (simp add: matchLoop_0)
next
  case (Suc k)
  have "k \<notin> fst ` set (fst (matchLoop A B k))" using matchLoop_fst_sub [of A B k] by auto
  with Suc show ?case by (auto simp: matchLoop_Suc outerStep_def split: option.splits)
qed

lemma matchLoop_distinct_snd: "distinct (map snd (fst (matchLoop A B k)))"
proof (induction k)
  case 0
  show ?case by (simp add: matchLoop_0)
next
  case (Suc k)
  show ?case
  proof (cases "fst (bestMatch (A ! k) B (snd (matchLoop A B k)))")
    case None
    with Suc show ?thesis by (simp add: matchLoop_Suc outerStep_def)
  next
    case (Some m)
    then have "m \<notin> snd (matchLoop A B k)" by (auto dest: bestMatch_Some)
    then have "m \<notin> snd ` set (fst (matchLoop A B k))" by (simp add: matchLoop_used [symmetric])
    with Suc Some show ?thesis by (simp add: matchLoop_Suc outerStep_def)
  qed
qed

lemma matchLoop_card: "card (snd (matchLoop A B k)) = length (fst (matchLoop A B k))"
proof -
  have "card (snd (matchLoop A B k)) = card (set (map snd (fst (matchLoop A B k))))"
    by (simp add: matchLoop_used)
  also have "\<dots> = length (map snd (fst (matchLoop A B k)))"
    by (rule distinct_card) (rule matchLoop_distinct_snd)
  finally show ?thesis by simp
qed

lemma matchLoop_full:
  "({0..<length B} \<subseteq> snd (matchLoop A B k)) = (length (fst (matchLoop A B k)) = length B)"
proof
  assume "{0..<length B} \<subseteq> snd (matchLoop A B k)"
  with matchLoop_used_sub [of A B k] have "snd (matchLoop A B k) = {0..<length B}" by auto
  then have "card (snd (matchLoop A B k)) = length B" by simp
  then show "length (fst (matchLoop A B k)) = length B" by (simp add: matchLoop_card)
next
  assume "length (fst (matchLoop A B k)) = length B"
  then have "card (snd (matchLoop A B k)) = card {0..<length B}" by (simp add: matchLoop_card)
  with matchLoop_used_sub [of A B k] have "snd (matchLoop A B k) = {0..<length B}"
    by (intro card_subset_eq) simp_all
  then show "{0..<length B} \<subseteq> snd (matchLoop A B k)" by simp
qed

lemma matchLoop_length: "length (fst (matchLoop A B k)) = min k (length B)"
proof (induction k)
  case 0
  show ?case by (simp add: matchLoop_0)
next
  case (Suc k)
  show ?case
  proof (cases "fst (bestMatch (A ! k) B (snd (matchLoop A B k)))")
    case None
    then have "length (fst (matchLoop A B k)) = length B"
      by (simp add: bestMatch_None matchLoop_full)
    with Suc None show ?thesis by (simp add: matchLoop_Suc outerStep_def)
  next
    case (Some m)
    then have "length (fst (matchLoop A B k)) \<noteq> length B"
      using bestMatch_None [of "A ! k" B "snd (matchLoop A B k)"] by (simp add: matchLoop_full)
    with Suc Some show ?thesis by (simp add: matchLoop_Suc outerStep_def)
  qed
qed

text \<open>Later passes only add pairs whose first component is a later index.\<close>

lemma matchLoop_later:
  "k \<le> k' \<Longrightarrow>
   fst ` set (fst (matchLoop A B k')) \<inter> {0..<k} = fst ` set (fst (matchLoop A B k))"
proof (induction k')
  case 0
  then show ?case by (simp add: matchLoop_0)
next
  case (Suc k')
  show ?case
  proof (cases "k = Suc k'")
    case True
    then show ?thesis using matchLoop_fst_sub [of A B k] by auto
  next
    case False
    with Suc.prems have "k \<le> k'" by simp
    then have IH:
      "fst ` set (fst (matchLoop A B k')) \<inter> {0..<k} = fst ` set (fst (matchLoop A B k))"
      by (rule Suc.IH)
    from \<open>k \<le> k'\<close> IH show ?thesis
      by (auto simp: matchLoop_Suc outerStep_def split: option.splits)
  qed
qed

lemma matchLoop_unmatched:
  assumes "i < k" and "i \<notin> fst ` set (fst (matchLoop A B k))"
  shows "snd (matchLoop A B i) = {0..<length B}"
proof -
  from assms(1) have "Suc i \<le> k" by simp
  then have "fst ` set (fst (matchLoop A B k)) \<inter> {0..<Suc i} =
             fst ` set (fst (matchLoop A B (Suc i)))"
    by (rule matchLoop_later)
  with assms(2) have "i \<notin> fst ` set (fst (matchLoop A B (Suc i)))" by auto
  then have "fst (bestMatch (A ! i) B (snd (matchLoop A B i))) = None"
    by (auto simp: matchLoop_Suc outerStep_def image_iff split: option.splits)
  then have "{0..<length B} \<subseteq> snd (matchLoop A B i)" by (simp add: bestMatch_None)
  with matchLoop_used_sub [of A B i] show ?thesis by auto
qed

subsection \<open>The result of the matcher\<close>

lemma list_ex_fst: "list_ex (\<lambda>p. fst p = i) ps = (i \<in> fst ` set ps)"
  by (auto simp: list_ex_iff)

lemma list_ex_snd: "list_ex (\<lambda>p. snd p = j) ps = (j \<in> snd ` set ps)"
  by (auto simp: list_ex_iff)

lemma pairs_matchStrokes: "pairs (matchStrokes A B) = fst (matchLoop A B (length A))"
  by (simp add: matchStrokes_def Let_def)

lemma unmatchedA_matchStrokes:
  "unmatchedA (matchStrokes A B) =
     filter (\<lambda>i. i \<notin> fst ` set (fst (matchLoop A B (length A)))) [0..<length A]"
  by (simp add: matchStrokes_def Let_def list_ex_fst)

lemma unmatchedB_matchStrokes:
  "unmatchedB (matchStrokes A B) =
     filter (\<lambda>j. j \<notin> snd ` set (fst (matchLoop A B (length A)))) [0..<length B]"
  by (simp add: matchStrokes_def Let_def list_ex_snd)

lemma length_filter_notin:
  "S \<subseteq> {0..<n} \<Longrightarrow> length (filter (\<lambda>i. i \<notin> S) [0..<n]) = n - card S"
proof -
  assume sub: "S \<subseteq> {0..<n}"
  then have fin: "finite S" by (rule finite_subset) simp
  have "length (filter (\<lambda>i. i \<notin> S) [0..<n]) = card ({i. i \<notin> S} \<inter> set [0..<n])"
    by (rule distinct_length_filter) simp
  also have "{i. i \<notin> S} \<inter> set [0..<n] = {0..<n} - S" by auto
  also have "card ({0..<n} - S) = card {0..<n} - card S" using fin sub by (rule card_Diff_subset)
  finally show ?thesis by simp
qed

lemma length_pairs: "length (pairs (matchStrokes A B)) = min (length A) (length B)"
  by (simp add: pairs_matchStrokes matchLoop_length)

lemma length_unmatchedA: "length (unmatchedA (matchStrokes A B)) = length A - length B"
proof -
  let ?ps = "fst (matchLoop A B (length A))"
  have "length (filter (\<lambda>i. i \<notin> fst ` set ?ps) [0..<length A]) = length A - card (fst ` set ?ps)"
    by (rule length_filter_notin) (rule matchLoop_fst_sub)
  also have "card (fst ` set ?ps) = card (set (map fst ?ps))" by simp
  also have "\<dots> = length (map fst ?ps)" by (rule distinct_card) (rule matchLoop_distinct_fst)
  finally show ?thesis by (simp add: unmatchedA_matchStrokes matchLoop_length)
qed

lemma length_unmatchedB: "length (unmatchedB (matchStrokes A B)) = length B - length A"
proof -
  let ?ps = "fst (matchLoop A B (length A))"
  have "length (filter (\<lambda>j. j \<notin> snd ` set ?ps) [0..<length B]) = length B - card (snd ` set ?ps)"
    by (rule length_filter_notin) (rule matchLoop_snd_sub)
  also have "card (snd ` set ?ps) = card (set (map snd ?ps))" by simp
  also have "\<dots> = length (map snd ?ps)" by (rule distinct_card) (rule matchLoop_distinct_snd)
  finally show ?thesis by (simp add: unmatchedB_matchStrokes matchLoop_length)
qed

lemma lineStroke_cost: "strokeMatchCost (lineStroke 0 1) (lineStroke 0 1) = 0"
  by (simp add: strokeMatchCost_def lineStroke_def centroidOf_def lengthOf_def dist_p5_def)

subsection \<open>The segment of a frame\<close>

lemma frameSegment_floor:
  assumes "2 \<le> n" and "0 \<le> tg" and "tg < 1"
  shows "fst (frameSegment n ease tg) = \<lfloor>segTOf n tg\<rfloor> \<and>
         0 \<le> fst (frameSegment n ease tg) \<and> fst (frameSegment n ease tg) \<le> int n - 2"
proof -
  let ?s = "real_of_int (int n - 1)"
  from assms have s: "0 < ?s" by simp
  with assms have "tg * ?s < 1 * ?s" by (intro mult_strict_right_mono) simp_all
  then have "segTOf n tg < ?s" by (simp add: segTOf_def)
  then have "\<lfloor>segTOf n tg\<rfloor> < int n - 1" by (simp add: floor_less_iff)
  moreover from assms s have "0 \<le> segTOf n tg" by (simp add: segTOf_def)
  then have "0 \<le> \<lfloor>segTOf n tg\<rfloor>" by simp
  ultimately show ?thesis by (simp add: frameSegment_def Let_def)
qed

lemma frameSegment_integer:
  assumes "k + 2 \<le> n"
  shows "segTOf n (real k / real (n - 1)) = real k \<and>
         frameSegment n ease (real k / real (n - 1)) = (int k, easedLocal ease 0)"
proof -
  from assms have n1: "real_of_int (int n - 1) = real (n - 1)" "real (n - 1) \<noteq> 0" by auto
  then have s: "segTOf n (real k / real (n - 1)) = real k" by (simp add: segTOf_def)
  from assms have "min (int n - 1 - 1) (int k) = int k" by simp
  with s show ?thesis by (simp add: frameSegment_def Let_def constrain_def)
qed

subsection \<open>The easing lookup\<close>

lemma getEase_own:
  "getEase ''Linear'' = EaseFun Linear"
  "getEase ''EaseInOutCubic'' = EaseFun EaseInOutCubic"
  "getEase ''EaseInOutQuad'' = EaseFun EaseInOutQuad"
  by (simp_all add: getEase_def)

lemma getEase_fallback:
  "name \<notin> set protoNames \<Longrightarrow> name \<noteq> ''Linear'' \<Longrightarrow> name \<noteq> ''EaseInOutQuad'' \<Longrightarrow>
   getEase name = EaseFun EaseInOutCubic"
  by (simp add: getEase_def)

lemma getEase_inherited:
  "getEase ''constructor'' = ProtoMember ''constructor''"
  "getEase ''__proto__'' = ProtoMember ''__proto__''"
  "getEase ''toString'' = ProtoMember ''toString''"
  by (simp_all add: getEase_def protoNames_def)

lemma easedLocal_inherited:
  "easedLocal (ProtoMember ''constructor'') (1 / 4) = Inr (Some (1 / 4))"
  "easedLocal (ProtoMember ''__proto__'') x = Inl TypeError"
  "easedLocal (ProtoMember ''hasOwnProperty'') x = Inl TypeError"
  "easedLocal (ProtoMember ''valueOf'') x = Inl TypeError"
  "easedLocal (ProtoMember ''toString'') x = Inr None"
  by (simp_all add: easedLocal_def constrain_def)

text \<open>A frame 300 ms into 900 ms over 3 keyframes, drawn with an inherited name: with
  \<^verbatim>\<open>__proto__\<close> the call of the easing throws, with \<^verbatim>\<open>constructor\<close> the local
  parameter stays \<open>2/3\<close>.\<close>

lemma drawFrame_inherited:
  "drawFrame \<lparr>running = True, startMs = 0, durationMs = Fin 900\<rparr> 300 [k0, k1, k2] ''__proto__'' =
     Inl TypeError"
  "drawFrame \<lparr>running = True, startMs = 0, durationMs = Fin 900\<rparr> 300 [k0, k1, k2] ''constructor'' =
     (case tweenDrawingsMulti (strokes k0) (strokes k1) (2 / 3) of
        Inl x \<Rightarrow> Inl x
      | Inr tw \<Rightarrow> Inr (\<lparr>running = True, startMs = 0, durationMs = Fin 900\<rparr>, Strokes tw))"
  by (simp_all add: drawFrame_def tGlobalOf_def frameSegment_def segTOf_def getEase_inherited
      easedLocal_def constrain_def Let_def)

subsection \<open>Whether the tween throws does not depend on the parameter\<close>

lemma tweenTwoStrokes_throw_indep: "isl (tweenTwoStrokes a b t N) = isl (tweenTwoStrokes a b t' N)"
proof -
  from resample_total [of "points a" N] obtain pa
    where pa: "resamplePointsLocal (points a) N = Inr pa" by blast
  from resample_total [of "points b" N] obtain pb
    where pb: "resamplePointsLocal (points b) N = Inr pb" by blast
  show ?thesis
  proof (cases "nat \<lceil>N\<rceil> \<le> length pa \<and> nat \<lceil>N\<rceil> \<le> length pb")
    case True
    with pa pb show ?thesis by (simp add: tweenTwoStrokes_def tweenPoints_Inr)
  next
    case False
    then have "length pa < nat \<lceil>N\<rceil> \<or> length pb < nat \<lceil>N\<rceil>"
      by (simp only: de_Morgan_conj not_le)
    then have "tweenPoints pa pb u N 0 [] = Inl TypeError" for u
      by (intro tweenPoints_Inl) simp_all
    with pa pb show ?thesis by (simp add: tweenTwoStrokes_def)
  qed
qed

lemma mapE_isl:
  "(\<And>x. x \<in> set xs \<Longrightarrow> isl (f x) = isl (g x)) \<Longrightarrow> isl (mapE f xs) = isl (mapE g xs)"
proof (induction xs)
  case Nil
  show ?case by simp
next
  case (Cons x xs)
  from Cons.prems have 1: "isl (f x) = isl (g x)" by simp
  from Cons.prems have 2: "isl (mapE f xs) = isl (mapE g xs)" by (intro Cons.IH) simp
  from 1 2 show ?case by (auto split: sum.splits)
qed

lemma tweenDrawingsMulti_throw_indep:
  "isl (tweenDrawingsMulti A B t) = isl (tweenDrawingsMulti A B t')"
proof -
  let ?AA = "filter (\<lambda>s. \<not> eraser s) A"
  let ?BB = "filter (\<lambda>s. \<not> eraser s) B"
  let ?m = "matchStrokes ?AA ?BB"
  have 1: "isl (mapE (\<lambda>(ia, ib). tweenTwoStrokes (?AA ! ia) (?BB ! ib) t 60) (pairs ?m)) =
           isl (mapE (\<lambda>(ia, ib). tweenTwoStrokes (?AA ! ia) (?BB ! ib) t' 60) (pairs ?m))"
    by (rule mapE_isl) (auto simp: tweenTwoStrokes_throw_indep [of _ _ t 60 t'])
  have 2: "isl (mapE (\<lambda>ia. tweenTwoStrokes (?AA ! ia) (ghostFromStrokeLike (?AA ! ia)) t 40)
                 (unmatchedA ?m)) =
           isl (mapE (\<lambda>ia. tweenTwoStrokes (?AA ! ia) (ghostFromStrokeLike (?AA ! ia)) t' 40)
                 (unmatchedA ?m))"
    by (rule mapE_isl) (rule tweenTwoStrokes_throw_indep)
  have 3: "isl (mapE (\<lambda>ib. tweenTwoStrokes (ghostFromStrokeLike (?BB ! ib)) (?BB ! ib) t 40)
                 (unmatchedB ?m)) =
           isl (mapE (\<lambda>ib. tweenTwoStrokes (ghostFromStrokeLike (?BB ! ib)) (?BB ! ib) t' 40)
                 (unmatchedB ?m))"
    by (rule mapE_isl) (rule tweenTwoStrokes_throw_indep)
  from 1 2 3 show ?thesis
    by (auto simp: tweenDrawingsMulti_def Let_def split: sum.splits)
qed

subsection \<open>The centroid is the mean\<close>

lemma foldl_add_sum_list: "foldl (\<lambda>s p. s + f p) z ps = z + sum_list (map f ps)"
  by (induction ps arbitrary: z) (simp_all add: add.assoc)

lemma centroidOf_mean:
  "ps \<noteq> [] \<Longrightarrow>
   centroidOf ps = \<lparr>px = sum_list (map px ps) / real (length ps),
                    py = sum_list (map py ps) / real (length ps)\<rparr>"
  by (simp add: centroidOf_def foldl_add_sum_list)

section \<open>The claims\<close>

subsection \<open>C1: resampling and tweening complete\<close>

text \<open>
  Claim C1, as the code has it. \<^verbatim>\<open>resample(points, N)\<close> completes for every point list
  and every \<open>N\<close> without an out-of-range read: a list of fewer than 2 points is returned
  unchanged, any other list gives \<open>max(2, floor N)\<close> points. \<^verbatim>\<open>tweenStrokes(a, b, t, N)\<close>
  completes, for every \<open>t\<close>, whenever both strokes have at least 2 points and \<open>N\<close> is a
  whole number (or at most 2); the result has \<open>max(0, ceil N)\<close> points and is not an
  eraser stroke.
\<close>

theorem resample_tween_complete:
  "(\<exists>out. resamplePointsLocal ps N = Inr out \<and>
       length out = (if length ps < 2 then length ps else nat (max 2 \<lfloor>N\<rfloor>)) \<and>
       (length ps < 2 \<longrightarrow> out = ps)) \<and>
   (2 \<le> length (points a) \<and> 2 \<le> length (points b) \<and> (N \<le> 2 \<or> N \<in> \<int>) \<longrightarrow>
      (\<exists>s. tweenTwoStrokes a b t N = Inr s \<and> length (points s) = nat \<lceil>N\<rceil> \<and>
           eraser s = False))"
proof (intro conjI impI)
  from resample_total [of ps N] obtain out where out: "resamplePointsLocal ps N = Inr out"
    "length out = (if length ps < 2 then length ps else nat (max 2 \<lfloor>N\<rfloor>))" by blast
  have "length ps < 2 \<longrightarrow> out = ps" using out(1) by (auto simp: resamplePointsLocal_def)
  with out show "\<exists>out. resamplePointsLocal ps N = Inr out \<and>
       length out = (if length ps < 2 then length ps else nat (max 2 \<lfloor>N\<rfloor>)) \<and>
       (length ps < 2 \<longrightarrow> out = ps)" by blast
next
  assume "2 \<le> length (points a) \<and> 2 \<le> length (points b) \<and> (N \<le> 2 \<or> N \<in> \<int>)"
  then show "\<exists>s. tweenTwoStrokes a b t N = Inr s \<and> length (points s) = nat \<lceil>N\<rceil> \<and>
      eraser s = False"
    by (intro tweenTwoStrokes_total) simp_all
qed

text \<open>At a one-point list and at two segments with \<open>N = 60\<close>.\<close>

theorem resample_tween_complete_witness:
  "(\<exists>out. resamplePointsLocal [\<lparr>px = 0, py = 0\<rparr>] 60 = Inr out \<and> out = [\<lparr>px = 0, py = 0\<rparr>]) \<and>
   (\<exists>s. tweenTwoStrokes (lineStroke 0 1) (lineStroke 2 5) (1 / 2) 60 = Inr s \<and>
        length (points s) = 60 \<and> eraser s = False)"
  using resample_tween_complete
    [of "[\<lparr>px = 0, py = 0\<rparr>]" 60 "lineStroke 0 1" "lineStroke 2 5" "1 / 2"]
  by (simp add: lineStroke_def)

text \<open>
  Where C1 as stated fails: with a stroke of one point and \<open>N = 60\<close> the resampled copy has
  one element and the loop of \<^verbatim>\<open>tweenTwoStrokes\<close> reads \<^verbatim>\<open>pa[1].x\<close>; with two good
  strokes and \<open>N = 2.5\<close> the resampled lists have 2 elements and the loop reads
  \<^verbatim>\<open>pa[2].x\<close>.
\<close>

theorem tween_short_stroke_throws:
  "tweenTwoStrokes dotStroke (lineStroke 0 1) 0 60 = Inl TypeError \<and>
   tweenTwoStrokes (lineStroke 0 1) (lineStroke 0 1) 0 (5 / 2) = Inl TypeError"
proof
  have "resamplePointsLocal (points dotStroke) 60 = Inr (points dotStroke)"
    by (simp add: resamplePointsLocal_def dotStroke_def)
  moreover obtain pb
    where "resamplePointsLocal (points (lineStroke 0 1)) 60 = Inr pb" "length pb = 60"
    using resample_total [of "points (lineStroke 0 1)" 60] by (auto simp: lineStroke_def)
  moreover have "tweenPoints (points dotStroke) pb 0 60 0 [] = Inl TypeError"
    by (rule tweenPoints_Inl) (simp_all add: dotStroke_def)
  ultimately show "tweenTwoStrokes dotStroke (lineStroke 0 1) 0 60 = Inl TypeError"
    by (simp add: tweenTwoStrokes_def)
next
  obtain pa
    where pa: "resamplePointsLocal (points (lineStroke 0 1)) (5 / 2) = Inr pa" "length pa = 2"
    using resample_total [of "points (lineStroke 0 1)" "5 / 2"] by (auto simp: lineStroke_def)
  have c: "nat \<lceil>5 / 2 :: real\<rceil> = 3" by (simp add: ceiling_eq_iff)
  have "tweenPoints pa pa 0 (5 / 2) 0 [] = Inl TypeError"
    by (rule tweenPoints_Inl) (simp_all add: pa c)
  with pa show "tweenTwoStrokes (lineStroke 0 1) (lineStroke 0 1) 0 (5 / 2) = Inl TypeError"
    by (simp add: tweenTwoStrokes_def)
qed

subsection \<open>C2: the segment of a frame\<close>

text \<open>
  Claim C2, as the code has it. With 3 keyframes and a duration of 900 ms, a frame drawn
  300 ms after the start has \<open>tGlobal = 1/3\<close>, \<open>segments = 2\<close> and \<open>segT = 2/3\<close>: with an
  easing function of the table (or the cubic fallback) it tweens keyframe 0 against
  keyframe 1 at the eased value of \<open>2/3\<close>. When \<open>segT\<close> is exactly a whole number
  \<open>k \<le> segments - 1\<close> the floor selects the segment \<open>k\<close> that starts there, at the eased
  value of 0. For \<open>0 \<le> tGlobal < 1\<close> the index is \<open>floor segT\<close>, between 0 and
  \<open>segments - 1\<close>: the minimum with \<open>segments - 1\<close> changes nothing.
\<close>

theorem segmentation_scenario:
  "tGlobalOf \<lparr>running = True, startMs = s0, durationMs = Fin 900\<rparr> (s0 + 300) = Fin (1 / 3) \<and>
   segTOf 3 (1 / 3) = 2 / 3 \<and>
   frameSegment 3 (EaseFun f) (1 / 3) = (0, Inr (Some (constrain (f (2 / 3)) 0 1))) \<and>
   (getEase e = EaseFun f \<longrightarrow>
      drawFrame \<lparr>running = True, startMs = s0, durationMs = Fin 900\<rparr> (s0 + 300) [k0, k1, k2] e =
        (case tweenDrawingsMulti (strokes k0) (strokes k1) (constrain (f (2 / 3)) 0 1) of
           Inl x \<Rightarrow> Inl x
         | Inr tw \<Rightarrow>
             Inr (\<lparr>running = True, startMs = s0, durationMs = Fin 900\<rparr>, Strokes tw))) \<and>
   (k + 2 \<le> n \<longrightarrow>
      segTOf n (real k / real (n - 1)) = real k \<and>
      frameSegment n (EaseFun f) (real k / real (n - 1)) =
        (int k, Inr (Some (constrain (f 0) 0 1)))) \<and>
   (2 \<le> n \<and> 0 \<le> tg \<and> tg < 1 \<longrightarrow>
      fst (frameSegment n ease tg) = \<lfloor>segTOf n tg\<rfloor> \<and>
      0 \<le> fst (frameSegment n ease tg) \<and> fst (frameSegment n ease tg) \<le> int n - 2)"
proof (intro conjI impI)
  show tg: "tGlobalOf \<lparr>running = True, startMs = s0, durationMs = Fin 900\<rparr> (s0 + 300) = Fin (1 / 3)"
    by (simp add: tGlobalOf_def)
  show "segTOf 3 (1 / 3) = 2 / 3" by (simp add: segTOf_def)
  show fs: "frameSegment 3 (EaseFun f) (1 / 3) = (0, Inr (Some (constrain (f (2 / 3)) 0 1)))"
    by (simp add: frameSegment_def segTOf_def easedLocal_def Let_def constrain_def)
  assume "getEase e = EaseFun f"
  with fs show
    "drawFrame \<lparr>running = True, startMs = s0, durationMs = Fin 900\<rparr> (s0 + 300) [k0, k1, k2] e =
       (case tweenDrawingsMulti (strokes k0) (strokes k1) (constrain (f (2 / 3)) 0 1) of
          Inl x \<Rightarrow> Inl x
        | Inr tw \<Rightarrow>
            Inr (\<lparr>running = True, startMs = s0, durationMs = Fin 900\<rparr>, Strokes tw))"
    by (simp add: drawFrame_def tg Let_def numeral_3_eq_3)
next
  assume "k + 2 \<le> n"
  then have "segTOf n (real k / real (n - 1)) = real k \<and>
      frameSegment n (EaseFun f) (real k / real (n - 1)) = (int k, easedLocal (EaseFun f) 0)"
    by (rule frameSegment_integer)
  then show "segTOf n (real k / real (n - 1)) = real k"
    and "frameSegment n (EaseFun f) (real k / real (n - 1)) =
        (int k, Inr (Some (constrain (f 0) 0 1)))"
    by (simp_all add: easedLocal_def)
next
  assume "2 \<le> n \<and> 0 \<le> tg \<and> tg < 1"
  then have "fst (frameSegment n ease tg) = \<lfloor>segTOf n tg\<rfloor> \<and>
      0 \<le> fst (frameSegment n ease tg) \<and> fst (frameSegment n ease tg) \<le> int n - 2"
    by (intro frameSegment_floor) simp_all
  then show "fst (frameSegment n ease tg) = \<lfloor>segTOf n tg\<rfloor>"
    and "0 \<le> fst (frameSegment n ease tg)" and "fst (frameSegment n ease tg) \<le> int n - 2"
    by blast+
qed

text \<open>At 3 keyframes with the linear easing: the frame at 300 of 900 ms tweens the first two
  keyframes (here empty); \<open>segT = 1\<close> (half of the duration) selects segment 1 at 0; and
  three quarters of the duration lie in segment 1.\<close>

theorem segmentation_scenario_witness:
  "drawFrame \<lparr>running = True, startMs = 0, durationMs = Fin 900\<rparr> 300
      [\<lparr>strokes = []\<rparr>, \<lparr>strokes = []\<rparr>, \<lparr>strokes = []\<rparr>] ''Linear'' =
     Inr (\<lparr>running = True, startMs = 0, durationMs = Fin 900\<rparr>, Strokes []) \<and>
   segTOf 3 (1 / 2) = 1 \<and>
   frameSegment 3 (EaseFun Linear) (1 / 2) = (1, Inr (Some 0)) \<and>
   fst (frameSegment 3 (EaseFun Linear) (3 / 4)) = 1"
proof -
  have t: "tweenDrawingsMulti [] [] x = Inr []" for x
    by (simp add: tweenDrawingsMulti_def matchStrokes_def matchLoop_def)
  show ?thesis
    using segmentation_scenario [of 0 Linear "''Linear''" "\<lparr>strokes = []\<rparr>" "\<lparr>strokes = []\<rparr>"
        "\<lparr>strokes = []\<rparr>" 1 3 "3 / 4" "EaseFun Linear"]
    by (simp add: getEase_own t Linear_def constrain_def segTOf_def)
qed

text \<open>
  Where C2 as stated fails: at \<open>tGlobal = 1/3\<close> of 3 keyframes \<open>segT\<close> is \<open>2/3\<close>, not 1, and
  the local parameter (with the linear easing) is \<open>2/3\<close>, not 1; and \<open>segT = 1\<close>, reached at
  \<open>tGlobal = 1/2\<close>, selects segment 1 at local 0, not segment 0 at local 1.
\<close>

theorem segmentation_counterexample:
  "segTOf 3 (1 / 3) \<noteq> 1 \<and>
   frameSegment 3 (EaseFun Linear) (1 / 3) = (0, Inr (Some (2 / 3))) \<and>
   segTOf 3 (1 / 2) = 1 \<and>
   frameSegment 3 (EaseFun Linear) (1 / 2) = (1, Inr (Some 0))"
  by (simp add: segTOf_def frameSegment_def easedLocal_def Linear_def constrain_def)

subsection \<open>C3: starting the clock\<close>

text \<open>
  Claim C3, as the code has it. \<^verbatim>\<open>start(d)\<close> always records the start time and sets
  the clock running. The duration becomes the default 10000 exactly when \<^verbatim>\<open>Number(d)\<close>
  is 0 or NaN (so for 0, NaN, \<^verbatim>\<open>undefined\<close>, \<^verbatim>\<open>null\<close> and \<^verbatim>\<open>false\<close>); every other
  number, a negative one included, is stored as the duration.
\<close>

theorem start_duration:
  "running (start c d now) = True \<and>
   startMs (start c d now) = now \<and>
   durationMs (start c d now) =
     (if Number_js d = NaN \<or> Number_js d = Fin 0 then Fin 10000 else Number_js d)"
  by (cases "Number_js d") (simp_all add: start_def)

theorem start_duration_witness:
  "running (start \<lparr>running = False, startMs = 0, durationMs = Fin 10000\<rparr> JUndefined 5) \<and>
   startMs (start \<lparr>running = False, startMs = 0, durationMs = Fin 10000\<rparr> JUndefined 5) = 5 \<and>
   durationMs (start \<lparr>running = False, startMs = 0, durationMs = Fin 10000\<rparr> JUndefined 5) =
     Fin 10000"
  using start_duration [of "\<lparr>running = False, startMs = 0, durationMs = Fin 10000\<rparr>" JUndefined 5]
  by simp

text \<open>Where C3 as stated fails: \<^verbatim>\<open>start(-5)\<close> stores the duration \<open>-5\<close>.\<close>

theorem start_not_positive_counterexample:
  "durationMs (start \<lparr>running = False, startMs = 0, durationMs = Fin 10000\<rparr>
      (JNum (Fin (- 5))) 0) = Fin (- 5) \<and>
   durationMs (start \<lparr>running = False, startMs = 0, durationMs = Fin 10000\<rparr>
      (JNum (Fin (- 5))) 0) \<noteq> Fin 10000"
  by (simp add: start_def)

subsection \<open>C4: the number of resampled points\<close>

text \<open>
  Claim C4. For every polyline \<open>P\<close> of at least 2 points, \<^verbatim>\<open>resample(P, N)\<close> returns
  exactly \<open>N\<close> points for every whole number \<open>N \<ge> 2\<close> (\<open>floor N\<close> points for any
  \<open>N \<ge> 2\<close>), and 2 points for every \<open>N < 2\<close>.
\<close>

theorem resample_point_count:
  assumes "2 \<le> length P"
  shows "\<exists>out. resamplePointsLocal P N = Inr out \<and>
           length out = (if N < 2 then 2 else nat \<lfloor>N\<rfloor>) \<and>
           (N = real n \<and> 2 \<le> n \<longrightarrow> length out = n)"
proof -
  from resample_total [of P N] assms obtain out
    where out: "resamplePointsLocal P N = Inr out" "length out = nat (max 2 \<lfloor>N\<rfloor>)" by auto
  have 1: "nat (max 2 \<lfloor>N\<rfloor>) = (if N < 2 then 2 else nat \<lfloor>N\<rfloor>)"
    by (auto simp: max_def floor_less_iff not_less le_floor_iff)
  have 2: "N = real n \<and> 2 \<le> n \<longrightarrow> nat (max 2 \<lfloor>N\<rfloor>) = n" by auto
  from out 1 2 show ?thesis by simp
qed

theorem resample_point_count_witness:
  "\<exists>out. resamplePointsLocal [\<lparr>px = 0, py = 0\<rparr>, \<lparr>px = 3, py = 0\<rparr>] 3 = Inr out \<and>
     length out = 3"
  using resample_point_count [of "[\<lparr>px = 0, py = 0\<rparr>, \<lparr>px = 3, py = 0\<rparr>]" 3 3]
  by simp

subsection \<open>C5: every index is matched or unmatched, once\<close>

text \<open>
  Claim C5. In the result of \<^verbatim>\<open>match(A, B)\<close> the first components of the pairs followed
  by \<^verbatim>\<open>unmatchedA\<close> list every index \<open>0 .. len(A) - 1\<close> exactly once, the second
  components followed by \<^verbatim>\<open>unmatchedB\<close> list every index \<open>0 .. len(B) - 1\<close> exactly once,
  and no index is in two pairs.
\<close>

theorem match_totality:
  "distinct (map fst (pairs (matchStrokes A B)) @ unmatchedA (matchStrokes A B)) \<and>
   set (map fst (pairs (matchStrokes A B)) @ unmatchedA (matchStrokes A B)) = {0..<length A} \<and>
   distinct (map snd (pairs (matchStrokes A B)) @ unmatchedB (matchStrokes A B)) \<and>
   set (map snd (pairs (matchStrokes A B)) @ unmatchedB (matchStrokes A B)) = {0..<length B} \<and>
   distinct (map fst (pairs (matchStrokes A B))) \<and>
   distinct (map snd (pairs (matchStrokes A B)))"
proof -
  let ?ps = "fst (matchLoop A B (length A))"
  have df: "distinct (map fst ?ps)" by (rule matchLoop_distinct_fst)
  have ds: "distinct (map snd ?ps)" by (rule matchLoop_distinct_snd)
  have sf: "fst ` set ?ps \<subseteq> {0..<length A}" by (rule matchLoop_fst_sub)
  have ss: "snd ` set ?ps \<subseteq> {0..<length B}" by (rule matchLoop_snd_sub)
  have 1: "distinct (map fst ?ps @ filter (\<lambda>i. i \<notin> fst ` set ?ps) [0..<length A])"
    using df by auto
  have 2: "set (map fst ?ps @ filter (\<lambda>i. i \<notin> fst ` set ?ps) [0..<length A]) = {0..<length A}"
    using sf by auto
  have 3: "distinct (map snd ?ps @ filter (\<lambda>j. j \<notin> snd ` set ?ps) [0..<length B])"
    using ds by auto
  have 4: "set (map snd ?ps @ filter (\<lambda>j. j \<notin> snd ` set ?ps) [0..<length B]) = {0..<length B}"
    using ss by auto
  from 1 2 3 4 df ds show ?thesis
    by (simp only: pairs_matchStrokes unmatchedA_matchStrokes unmatchedB_matchStrokes)
qed

theorem match_totality_witness:
  "set (map fst (pairs (matchStrokes [lineStroke 0 1, lineStroke 2 5] [lineStroke 0 2])) @
        unmatchedA (matchStrokes [lineStroke 0 1, lineStroke 2 5] [lineStroke 0 2])) = {0, 1} \<and>
   set (map snd (pairs (matchStrokes [lineStroke 0 1, lineStroke 2 5] [lineStroke 0 2])) @
        unmatchedB (matchStrokes [lineStroke 0 1, lineStroke 2 5] [lineStroke 0 2])) = {0}"
  using match_totality [of "[lineStroke 0 1, lineStroke 2 5]" "[lineStroke 0 2]"]
  by (auto simp: numeral_2_eq_2)

subsection \<open>C6: the tween at 0 and at 1\<close>




subsection \<open>C7: fading into the ghost\<close>

text \<open>
  Claim C7. For every stroke \<open>a\<close> of at least 2 points and every point count \<open>N\<close>,
  \<^verbatim>\<open>tweenStrokes(a, ghostFrom(a), 1, N)\<close> is a stroke of opacity 0 whose \<open>N\<close> points all
  are the centroid of the points of \<open>a\<close>: the point whose coordinates are the arithmetic
  means of the x and of the y coordinates of \<open>a\<close>, which is what \<^verbatim>\<open>centroidOf\<close> returns.
\<close>

theorem ghost_fade:
  assumes "2 \<le> length (points a)"
  shows "\<exists>s. tweenTwoStrokes a (ghostFromStrokeLike a) 1 (real n) = Inr s \<and>
           opacity s = Some 0 \<and> length (points s) = n \<and>
           (\<forall>p \<in> set (points s).
              px p = sum_list (map px (points a)) / real (length (points a)) \<and>
              py p = sum_list (map py (points a)) / real (length (points a)) \<and>
              p = centroidOf (points a))"
proof -
  let ?g = "ghostFromStrokeLike a"
  let ?c = "centroidOf (points a)"
  let ?pb = "replicate (nat (max 2 \<lfloor>real n\<rfloor>)) ?c"
  from assms have "points a \<noteq> []" by auto
  then have mean: "?c = \<lparr>px = sum_list (map px (points a)) / real (length (points a)),
                         py = sum_list (map py (points a)) / real (length (points a))\<rparr>"
    by (rule centroidOf_mean)
  from resample_total [of "points a" "real n"] assms obtain pa
    where pa: "resamplePointsLocal (points a) (real n) = Inr pa" "length pa = max 2 n" by auto
  have pb: "resamplePointsLocal (points ?g) (real n) = Inr ?pb" by (rule resample_ghost)
  have "tweenTwoStrokes a ?g 1 (real n) =
     Inr \<lparr>colHSB =
            \<lparr>col_h = lerp (col_h (colHSB a)) (col_h (colHSB ?g)) 1,
             col_s = lerp (col_s (colHSB a)) (col_s (colHSB ?g)) 1,
             col_b = lerp (col_b (colHSB a)) (col_b (colHSB ?g)) 1,
             col_a = Some (lerp (nullish (opacity a) (nullish (col_a (colHSB a)) 100))
                                (nullish (opacity ?g) (nullish (col_a (colHSB ?g)) 100)) 1)\<rparr>,
          thickness = Some (lerp (orElse (thickness a) 4) (orElse (thickness ?g) 4) 1),
          opacity = Some (lerp (nullish (opacity a) 100) (nullish (opacity ?g) 100) 1),
          eraser = False,
          points = map (tweenPt pa ?pb 1) [0..<nat \<lceil>real n\<rceil>]\<rparr>"
    using pa pb by (intro tween_shape) simp_all
  moreover have "map (tweenPt pa ?pb 1) [0..<n] = take n ?pb" by (rule map_tweenPt_1) simp
  moreover have "opacity ?g = Some 0" by (simp add: ghostFromStrokeLike_def Let_def)
  moreover have "px ?c = sum_list (map px (points a)) / real (length (points a))"
    and "py ?c = sum_list (map py (points a)) / real (length (points a))"
    by (simp_all add: mean)
  ultimately show ?thesis by (auto simp: lerp_1 nullish_def dest: in_set_takeD)
qed

text \<open>The segment from \<open>(0, 0)\<close> to \<open>(1, 0)\<close> collapses to its midpoint.\<close>

theorem ghost_fade_witness:
  "\<exists>s. tweenTwoStrokes (lineStroke 0 1) (ghostFromStrokeLike (lineStroke 0 1)) 1 40 = Inr s \<and>
        opacity s = Some 0 \<and> length (points s) = 40 \<and>
        set (points s) \<subseteq> {\<lparr>px = 1 / 2, py = 0\<rparr>}"
proof -
  from ghost_fade [of "lineStroke 0 1" 40] obtain s where
    s: "tweenTwoStrokes (lineStroke 0 1) (ghostFromStrokeLike (lineStroke 0 1)) 1 40 = Inr s"
      "opacity s = Some 0" "length (points s) = 40"
      "\<forall>p \<in> set (points s).
          px p = sum_list (map px (points (lineStroke 0 1))) / real (length (points (lineStroke 0 1))) \<and>
          py p = sum_list (map py (points (lineStroke 0 1))) / real (length (points (lineStroke 0 1)))"
    by (auto simp: lineStroke_def)
  from s(4) have "set (points s) \<subseteq> {\<lparr>px = 1 / 2, py = 0\<rparr>}"
    by (auto simp: lineStroke_def)
  with s(1-3) show ?thesis by blast
qed

subsection \<open>C8: the final frame\<close>

text \<open>
  Claim C8. When \<^verbatim>\<open>drawFrame\<close> is called with at least 2 keyframes and \<open>tGlobal \<ge> 1\<close>,
  the render callback receives the strokes of the last keyframe as they are and the clock
  stops running; \<open>tGlobal \<ge> 1\<close> holds whenever the elapsed time has reached a positive
  duration.
\<close>

theorem final_frame:
  "(2 \<le> length ks \<and> jsge (tGlobalOf c now) (Fin 1) \<longrightarrow>
      drawFrame c now ks e = Inr (c\<lparr>running := False\<rparr>, Strokes (strokes (last ks))) \<and>
      running (c\<lparr>running := False\<rparr>) = False) \<and>
   (durationMs c = Fin d \<and> 0 < d \<and> d \<le> now - startMs c \<longrightarrow>
      jsge (tGlobalOf c now) (Fin 1))"
proof (intro conjI impI)
  assume h: "2 \<le> length ks \<and> jsge (tGlobalOf c now) (Fin 1)"
  then have "ks \<noteq> []" by auto
  then have "ks ! (length ks - 1) = last ks" by (simp add: last_conv_nth)
  with h show "drawFrame c now ks e = Inr (c\<lparr>running := False\<rparr>, Strokes (strokes (last ks)))"
    by (simp add: drawFrame_def Let_def)
  show "running (c\<lparr>running := False\<rparr>) = False" by simp
next
  assume "durationMs c = Fin d \<and> 0 < d \<and> d \<le> now - startMs c"
  then show "jsge (tGlobalOf c now) (Fin 1)" by (simp add: tGlobalOf_def)
qed

theorem final_frame_witness:
  "drawFrame \<lparr>running = True, startMs = 0, durationMs = Fin 1000\<rparr> 1000
      [\<lparr>strokes = [lineStroke 0 1]\<rparr>, \<lparr>strokes = [lineStroke 2 5]\<rparr>] ''Linear'' =
     Inr (\<lparr>running = False, startMs = 0, durationMs = Fin 1000\<rparr>, Strokes [lineStroke 2 5])"
  using final_frame [of "[\<lparr>strokes = [lineStroke 0 1]\<rparr>, \<lparr>strokes = [lineStroke 2 5]\<rparr>]"
      "\<lparr>running = True, startMs = 0, durationMs = Fin 1000\<rparr>" 1000 "''Linear''" 1000]
  by simp

subsection \<open>C9: the length of a tweened drawing\<close>

text \<open>
  Claim C9, as the code has it. For drawings \<open>A\<close>, \<open>B\<close> whose non-eraser strokes all have
  at least 2 points, and every \<open>t\<close>, \<^verbatim>\<open>tweenDrawings(A, B, t)\<close> completes and its length is
  the number of matched pairs plus the number of unmatched strokes of \<open>A\<close> plus the number
  of unmatched strokes of \<open>B\<close>, all counted on the eraser-filtered lists; this is the larger
  of the two filtered lengths.
\<close>

theorem tween_drawings_length:
  assumes A: "\<forall>s \<in> set A. \<not> eraser s \<longrightarrow> 2 \<le> length (points s)"
    and B: "\<forall>s \<in> set B. \<not> eraser s \<longrightarrow> 2 \<le> length (points s)"
  shows "\<exists>out. tweenDrawingsMulti A B t = Inr out \<and>
     length out =
       length (pairs (matchStrokes (filter (\<lambda>s. \<not> eraser s) A) (filter (\<lambda>s. \<not> eraser s) B))) +
       length (unmatchedA (matchStrokes (filter (\<lambda>s. \<not> eraser s) A) (filter (\<lambda>s. \<not> eraser s) B))) +
       length (unmatchedB (matchStrokes (filter (\<lambda>s. \<not> eraser s) A) (filter (\<lambda>s. \<not> eraser s) B))) \<and>
     length out =
       max (length (filter (\<lambda>s. \<not> eraser s) A)) (length (filter (\<lambda>s. \<not> eraser s) B))"
proof -
  let ?AA = "filter (\<lambda>s. \<not> eraser s) A"
  let ?BB = "filter (\<lambda>s. \<not> eraser s) B"
  let ?m = "matchStrokes ?AA ?BB"
  have okA: "2 \<le> length (points (?AA ! i))" if "i < length ?AA" for i
  proof -
    from that have "?AA ! i \<in> set ?AA" by (rule nth_mem)
    with A show ?thesis by simp
  qed
  have okB: "2 \<le> length (points (?BB ! j))" if "j < length ?BB" for j
  proof -
    from that have "?BB ! j \<in> set ?BB" by (rule nth_mem)
    with B show ?thesis by simp
  qed
  have "\<exists>ys. mapE (\<lambda>(ia, ib). tweenTwoStrokes (?AA ! ia) (?BB ! ib) t 60) (pairs ?m) = Inr ys
          \<and> length ys = length (pairs ?m)"
  proof (rule mapE_all_Inr)
    fix x assume x: "x \<in> set (pairs ?m)"
    then have "fst x \<in> fst ` set (fst (matchLoop ?AA ?BB (length ?AA)))"
      and "snd x \<in> snd ` set (fst (matchLoop ?AA ?BB (length ?AA)))"
      by (simp_all add: pairs_matchStrokes)
    with matchLoop_fst_sub [of ?AA ?BB "length ?AA"] matchLoop_snd_sub [of ?AA ?BB "length ?AA"]
    have "fst x < length ?AA" "snd x < length ?BB" by auto
    then have "2 \<le> length (points (?AA ! fst x))" "2 \<le> length (points (?BB ! snd x))"
      by (simp_all add: okA okB)
    then have "\<exists>s. tweenTwoStrokes (?AA ! fst x) (?BB ! snd x) t 60 = Inr s \<and>
        length (points s) = nat \<lceil>60::real\<rceil> \<and> eraser s = False"
      by (rule tweenTwoStrokes_total) simp
    then show "\<exists>y. (case x of (ia, ib) \<Rightarrow> tweenTwoStrokes (?AA ! ia) (?BB ! ib) t 60) = Inr y"
      by (auto simp: case_prod_beta)
  qed
  then obtain o1
    where o1: "mapE (\<lambda>(ia, ib). tweenTwoStrokes (?AA ! ia) (?BB ! ib) t 60) (pairs ?m) = Inr o1"
      "length o1 = length (pairs ?m)" by blast
  have "\<exists>ys. mapE (\<lambda>ia. tweenTwoStrokes (?AA ! ia) (ghostFromStrokeLike (?AA ! ia)) t 40)
                (unmatchedA ?m) = Inr ys
          \<and> length ys = length (unmatchedA ?m)"
  proof (rule mapE_all_Inr)
    fix ia assume "ia \<in> set (unmatchedA ?m)"
    then have "ia < length ?AA" by (simp add: unmatchedA_matchStrokes)
    then have "2 \<le> length (points (?AA ! ia))" by (rule okA)
    moreover have "2 \<le> length (points (ghostFromStrokeLike (?AA ! ia)))"
      by (simp add: ghost_points)
    ultimately have "\<exists>s. tweenTwoStrokes (?AA ! ia) (ghostFromStrokeLike (?AA ! ia)) t 40 = Inr s \<and>
        length (points s) = nat \<lceil>40::real\<rceil> \<and> eraser s = False"
      by (rule tweenTwoStrokes_total) simp
    then show "\<exists>y. tweenTwoStrokes (?AA ! ia) (ghostFromStrokeLike (?AA ! ia)) t 40 = Inr y"
      by blast
  qed
  then obtain o2
    where o2: "mapE (\<lambda>ia. tweenTwoStrokes (?AA ! ia) (ghostFromStrokeLike (?AA ! ia)) t 40)
                (unmatchedA ?m) = Inr o2"
      "length o2 = length (unmatchedA ?m)" by blast
  have "\<exists>ys. mapE (\<lambda>ib. tweenTwoStrokes (ghostFromStrokeLike (?BB ! ib)) (?BB ! ib) t 40)
                (unmatchedB ?m) = Inr ys
          \<and> length ys = length (unmatchedB ?m)"
  proof (rule mapE_all_Inr)
    fix ib assume "ib \<in> set (unmatchedB ?m)"
    then have "ib < length ?BB" by (simp add: unmatchedB_matchStrokes)
    then have "2 \<le> length (points (?BB ! ib))" by (rule okB)
    moreover have "2 \<le> length (points (ghostFromStrokeLike (?BB ! ib)))"
      by (simp add: ghost_points)
    ultimately have "\<exists>s. tweenTwoStrokes (ghostFromStrokeLike (?BB ! ib)) (?BB ! ib) t 40 = Inr s \<and>
        length (points s) = nat \<lceil>40::real\<rceil> \<and> eraser s = False"
      by (intro tweenTwoStrokes_total) simp_all
    then show "\<exists>y. tweenTwoStrokes (ghostFromStrokeLike (?BB ! ib)) (?BB ! ib) t 40 = Inr y"
      by blast
  qed
  then obtain o3
    where o3: "mapE (\<lambda>ib. tweenTwoStrokes (ghostFromStrokeLike (?BB ! ib)) (?BB ! ib) t 40)
                (unmatchedB ?m) = Inr o3"
      "length o3 = length (unmatchedB ?m)" by blast
  from o1(1) o2(1) o3(1) have res: "tweenDrawingsMulti A B t = Inr (o1 @ o2 @ o3)"
    by (simp add: tweenDrawingsMulti_def Let_def)
  have len: "length (o1 @ o2 @ o3) =
      length (pairs ?m) + length (unmatchedA ?m) + length (unmatchedB ?m)"
    using o1(2) o2(2) o3(2) by simp
  have "length (pairs ?m) + length (unmatchedA ?m) + length (unmatchedB ?m) =
      max (length ?AA) (length ?BB)"
    by (simp add: length_pairs length_unmatchedA length_unmatchedB)
  with res len show ?thesis by simp
qed

theorem tween_drawings_length_witness:
  "\<exists>out. tweenDrawingsMulti [lineStroke 0 1, lineStroke 2 5] [lineStroke 0 2] (1 / 2) = Inr out \<and>
     length out = 2"
  using tween_drawings_length [of "[lineStroke 0 1, lineStroke 2 5]" "[lineStroke 0 2]" "1 / 2"]
  by (auto simp: lineStroke_def)

text \<open>
  Where C9 as stated fails: a drawing with a non-eraser stroke of one point. The stroke is
  unmatched, and tweening it against its ghost with \<open>N = 40\<close> reads \<^verbatim>\<open>pa[1].x\<close>.
\<close>

theorem tween_drawings_throws:
  "tweenDrawingsMulti [dotStroke] [] 0 = Inl TypeError"
proof -
  have m: "matchStrokes [dotStroke] [] = \<lparr>pairs = [], unmatchedA = [0], unmatchedB = []\<rparr>"
    by (simp add: matchStrokes_def matchLoop_def outerStep_def bestMatch_def)
  have "resamplePointsLocal (points dotStroke) 40 = Inr (points dotStroke)"
    by (simp add: resamplePointsLocal_def dotStroke_def)
  moreover obtain pb
    where "resamplePointsLocal (points (ghostFromStrokeLike dotStroke)) 40 = Inr pb"
      "length pb = 40"
    using resample_total [of "points (ghostFromStrokeLike dotStroke)" 40]
    by (auto simp: ghost_points)
  moreover have "tweenPoints (points dotStroke) pb 0 40 0 [] = Inl TypeError"
    by (rule tweenPoints_Inl) (simp_all add: dotStroke_def)
  ultimately have "tweenTwoStrokes dotStroke (ghostFromStrokeLike dotStroke) 0 40 = Inl TypeError"
    by (simp add: tweenTwoStrokes_def)
  with m show ?thesis by (simp add: tweenDrawingsMulti_def dotStroke_def)
qed

subsection \<open>C10: how many strokes are matched\<close>

text \<open>
  Claim C10. \<^verbatim>\<open>match(A, B)\<close> has exactly \<open>min(len A, len B)\<close> pairs, \<open>max(0, len A - len B)\<close>
  unmatched indices of \<open>A\<close> and \<open>max(0, len B - len A)\<close> unmatched indices of \<open>B\<close>; and when
  the index \<open>i\<close> of \<open>A\<close> is unmatched, every index of \<open>B\<close> was already used when the loop
  reached \<open>i\<close>.
\<close>

theorem match_counts:
  "length (pairs (matchStrokes A B)) = min (length A) (length B) \<and>
   length (unmatchedA (matchStrokes A B)) = length A - length B \<and>
   length (unmatchedB (matchStrokes A B)) = length B - length A \<and>
   (\<forall>i \<in> set (unmatchedA (matchStrokes A B)). snd (matchLoop A B i) = {0..<length B})"
proof (intro conjI ballI)
  fix i assume "i \<in> set (unmatchedA (matchStrokes A B))"
  then have "i < length A" "i \<notin> fst ` set (fst (matchLoop A B (length A)))"
    by (simp_all add: unmatchedA_matchStrokes)
  then show "snd (matchLoop A B i) = {0..<length B}" by (rule matchLoop_unmatched)
qed (rule length_pairs length_unmatchedA length_unmatchedB)+

text \<open>Two equal segments against one: the second is unmatched, and index 0 of \<open>B\<close> was used
  when the loop reached it.\<close>

theorem match_counts_witness:
  "length (pairs (matchStrokes [lineStroke 0 1, lineStroke 0 1] [lineStroke 0 1])) = 1 \<and>
   unmatchedA (matchStrokes [lineStroke 0 1, lineStroke 0 1] [lineStroke 0 1]) = [1] \<and>
   snd (matchLoop [lineStroke 0 1, lineStroke 0 1] [lineStroke 0 1] 1) = {0}"
proof -
  have b0: "bestMatch (lineStroke 0 1) [lineStroke 0 1] {} = (Some 0, Fin 0)"
    by (simp add: bestMatch_def innerStep_def lineStroke_cost)
  have b1: "bestMatch (lineStroke 0 1) [lineStroke 0 1] {0} = (None, PInf)"
    by (simp add: bestMatch_def innerStep_def)
  have u: "unmatchedA (matchStrokes [lineStroke 0 1, lineStroke 0 1] [lineStroke 0 1]) = [1]"
    by (simp add: matchStrokes_def matchLoop_def outerStep_def b0 b1)
  with match_counts [of "[lineStroke 0 1, lineStroke 0 1]" "[lineStroke 0 1]"]
  show ?thesis by simp
qed

end
